theory Spec2Isabelle
  imports Complex_Main "HOL-Library.Sublist" "HOL-Library.Multiset"
begin

section \<open>Python strings\<close>

text \<open>
  A Python \<open>str\<close> is modelled as a \<open>string\<close>, one \<open>char\<close> per code point, so the
  model covers the code points below 256 (Latin-1); \<open>len\<close> is \<open>length\<close>. The
  predicates below are the restrictions of \<open>str.isspace\<close>, of the line boundaries of
  \<open>str.splitlines\<close>, and of the regular-expression classes \<open>\s\<close>, \<open>\d\<close> and
  \<open>[A-Za-z]\<close> to that range.
\<close>

definition LF :: char where
  "LF = CHR 0x0A"

definition CR :: char where
  "CR = CHR 0x0D"

definition isspace :: "char \<Rightarrow> bool" where
  "isspace c = (c \<in> set [CHR 0x09, CHR 0x0A, CHR 0x0B, CHR 0x0C, CHR 0x0D, CHR 0x1C,
     CHR 0x1D, CHR 0x1E, CHR 0x1F, CHR 0x20, CHR 0x85, CHR 0xA0])"

definition is_linebreak :: "char \<Rightarrow> bool" where
  "is_linebreak c = (c \<in> set [CHR 0x0A, CHR 0x0B, CHR 0x0C, CHR 0x0D, CHR 0x1C,
     CHR 0x1D, CHR 0x1E, CHR 0x85])"

text \<open>\<open>s.strip()\<close>: whitespace removed from both ends.\<close>

definition lstrip :: "string \<Rightarrow> string" where
  "lstrip s = dropWhile isspace s"

definition rstrip :: "string \<Rightarrow> string" where
  "rstrip s = rev (dropWhile isspace (rev s))"

definition strip :: "string \<Rightarrow> string" where
  "strip s = rstrip (lstrip s)"

text \<open>\<open>sep.join(xs)\<close>.\<close>

fun join :: "string \<Rightarrow> string list \<Rightarrow> string" where
  "join sep [] = []"
| "join sep [x] = x"
| "join sep (x # y # ys) = x @ sep @ join sep (y # ys)"

text \<open>
  \<open>s.splitlines()\<close>: the lines of \<open>s\<close> without their line breaks; \<open>\r\n\<close> is one
  break, and a break at the very end opens no further line.
\<close>

fun splitlines :: "string \<Rightarrow> string list" where
  "splitlines [] = []"
| "splitlines (c # cs) =
     (if c = CR \<and> cs \<noteq> [] \<and> hd cs = LF then [] # splitlines (tl cs)
      else if is_linebreak c then [] # splitlines cs
      else (case splitlines cs of [] \<Rightarrow> [[c]] | l # ls \<Rightarrow> (c # l) # ls))"

text \<open>
  \<open>s.split("\n\n")\<close>: the pieces between the leftmost non-overlapping occurrences of
  two line feeds; the empty string gives one empty piece.
\<close>

fun split_blank :: "string \<Rightarrow> string list" where
  "split_blank [] = [[]]"
| "split_blank [c] = [[c]]"
| "split_blank (c # d # cs) =
     (if c = LF \<and> d = LF then [] # split_blank cs
      else (case split_blank (d # cs) of [] \<Rightarrow> [[c]] | l # ls \<Rightarrow> (c # l) # ls))"

section \<open>ingest.py: the chunker\<close>

subsection \<open>Greedy paragraph packing\<close>

text \<open>
  \<open>_split_paragraphs_into_chunks\<close> is a generator; the model returns the list of the
  values it yields. \<open>split_loop\<close> is the \<open>for\<close> loop with its two variables
  \<open>current\<close> and \<open>cur_len\<close>, followed by the final flush.
\<close>

definition para_sep :: string where
  "para_sep = [LF, LF]"

fun split_loop :: "string list \<Rightarrow> int \<Rightarrow> string list \<Rightarrow> int \<Rightarrow> string list" where
  "split_loop [] max_chars current cur_len =
     (if current \<noteq> [] then [join para_sep current] else [])"
| "split_loop (p # ps) max_chars current cur_len =
     (let p_len = int (length p) in
      if current \<noteq> [] \<and> cur_len + p_len + 2 > max_chars
      then join para_sep current # split_loop ps max_chars [p] p_len
      else split_loop ps max_chars (current @ [p]) (cur_len + p_len + 2))"

definition split_paragraphs_into_chunks :: "string list \<Rightarrow> int \<Rightarrow> string list" where
  "split_paragraphs_into_chunks paragraphs max_chars = split_loop paragraphs max_chars [] 0"

text \<open>
  The same loop, yielding the list \<open>current\<close> itself instead of its join: the
  paragraphs that make up each chunk.
\<close>

fun group_loop :: "string list \<Rightarrow> int \<Rightarrow> string list \<Rightarrow> int \<Rightarrow> string list list" where
  "group_loop [] max_chars current cur_len = (if current \<noteq> [] then [current] else [])"
| "group_loop (p # ps) max_chars current cur_len =
     (let p_len = int (length p) in
      if current \<noteq> [] \<and> cur_len + p_len + 2 > max_chars
      then current # group_loop ps max_chars [p] p_len
      else group_loop ps max_chars (current @ [p]) (cur_len + p_len + 2))"

definition chunk_groups :: "string list \<Rightarrow> int \<Rightarrow> string list list" where
  "chunk_groups paragraphs max_chars = group_loop paragraphs max_chars [] 0"

subsection \<open>Blank-line normalisation\<close>

text \<open>
  \<open>normalize_loop\<close> is the \<open>for\<close> loop of \<open>normalize_newlines\<close> with its counter
  \<open>blank_streak\<close>; it returns the lines appended to \<open>normalized_lines\<close>.
\<close>

fun normalize_loop :: "string list \<Rightarrow> nat \<Rightarrow> string list" where
  "normalize_loop [] blank_streak = []"
| "normalize_loop (line # lines) blank_streak =
     (if strip line = [] then
        (if blank_streak + 1 = 1 then [] # normalize_loop lines (blank_streak + 1)
         else normalize_loop lines (blank_streak + 1))
      else line # normalize_loop lines 0)"

definition normalize_newlines :: "string \<Rightarrow> string" where
  "normalize_newlines text = join [LF] (normalize_loop (splitlines text) 0)"

subsection \<open>Section headers and titles\<close>

text \<open>
  \<open>ROMAN_HEADER_RE.match(stripped)\<close> followed by \<open>m.group("title").strip()\<close>, for the
  pattern \<open>^(?P<num>[IVXLCDM]+)\.\s+(?P<title>.+)$\<close>. The argument is always a stripped
  line: it holds no line break and no whitespace at either end, so after the numeral, the
  dot and the longest run of whitespace the title group is the non-empty rest.
\<close>

definition is_roman :: "char \<Rightarrow> bool" where
  "is_roman c = (c \<in> set ''IVXLCDM'')"

definition roman_header :: "string \<Rightarrow> string option" where
  "roman_header stripped =
     (let num = takeWhile is_roman stripped; rest = dropWhile is_roman stripped in
      if num = [] then None
      else (case rest of
              [] \<Rightarrow> None
            | c # rest' \<Rightarrow>
                if c \<noteq> CHR ''.'' then None
                else (let ws = takeWhile isspace rest'; title = dropWhile isspace rest' in
                      if ws = [] \<or> title = [] then None else Some (strip title))))"

text \<open>
  \<open>os.path.splitext(filename)[0]\<close> (POSIX): the extension starts at the last dot, unless
  that dot is not after the last \<open>/\<close> or only dots stand between the two.
\<close>

definition rfind :: "char \<Rightarrow> string \<Rightarrow> int" where
  "rfind c s = (if c \<in> set s then int (length s) - 1 - int (length (takeWhile (\<lambda>d. d \<noteq> c) (rev s))) else - 1)"

definition splitext_root :: "string \<Rightarrow> string" where
  "splitext_root p =
     (let sepIndex = rfind (CHR ''/'') p; dotIndex = rfind (CHR ''.'') p in
      if dotIndex > sepIndex \<and>
         (\<exists>c \<in> set (take (nat (dotIndex - (sepIndex + 1))) (drop (nat (sepIndex + 1)) p)). c \<noteq> CHR ''.'')
      then take (nat dotIndex) p else p)"

text \<open>
  \<open>str.title()\<close> on ASCII text (the file names of the corpus are ASCII): a letter that
  follows a letter is lowercased, any other letter is uppercased.
\<close>

definition is_upper :: "char \<Rightarrow> bool" where
  "is_upper c = ((65::nat) \<le> of_char c \<and> of_char c \<le> (90::nat))"

definition is_lower :: "char \<Rightarrow> bool" where
  "is_lower c = ((97::nat) \<le> of_char c \<and> of_char c \<le> (122::nat))"

definition is_alpha :: "char \<Rightarrow> bool" where
  "is_alpha c = (is_upper c \<or> is_lower c)"

definition to_lower :: "char \<Rightarrow> char" where
  "to_lower c = (if is_upper c then char_of (of_char c + (32::nat)) else c)"

definition to_upper :: "char \<Rightarrow> char" where
  "to_upper c = (if is_lower c then char_of (of_char c - (32::nat)) else c)"

fun title_loop :: "bool \<Rightarrow> string \<Rightarrow> string" where
  "title_loop previous_is_cased [] = []"
| "title_loop previous_is_cased (c # cs) =
     (if previous_is_cased then to_lower c else to_upper c) # title_loop (is_alpha c) cs"

definition title_case :: "string \<Rightarrow> string" where
  "title_case s = title_loop False s"

definition replace_char :: "char \<Rightarrow> char \<Rightarrow> string \<Rightarrow> string" where
  "replace_char old new s = map (\<lambda>c. if c = old then new else c) s"

definition MULTI_SECTION_FILES :: "string list" where
  "MULTI_SECTION_FILES =
     [''student_conduct_code.txt'', ''sexual_misconduct_title_ix.txt'',
      ''activities_and_organizations.txt'', ''living_on_campus.txt'']"

definition MAX_CHARS :: int where
  "MAX_CHARS = 3000"

subsection \<open>Sections and chunks\<close>

text \<open>\<open>[p.strip() for p in text.split("\n\n") if p.strip()]\<close>\<close>

definition paragraphs_of :: "string \<Rightarrow> string list" where
  "paragraphs_of text = filter (\<lambda>p. p \<noteq> []) (map strip (split_blank text))"

text \<open>
  The body shared by the two flushes of \<open>iter_section_chunks\<close>: the chunks of the
  section whose lines are \<open>current_lines\<close>, each paired with the section title.
\<close>

definition flush_section :: "string \<Rightarrow> string list \<Rightarrow> int \<Rightarrow> (string \<times> string) list" where
  "flush_section title current_lines max_chars =
     (let section_text = strip (join [LF] current_lines) in
      if section_text \<noteq> []
      then map (Pair title) (split_paragraphs_into_chunks (paragraphs_of section_text) max_chars)
      else [])"

text \<open>
  The truth value of \<open>current_title\<close>, which is \<open>None\<close> or a string: Python takes
  \<open>None\<close> and the empty string for false.
\<close>

fun truthy :: "string option \<Rightarrow> bool" where
  "truthy None = False"
| "truthy (Some t) = (t \<noteq> [])"

text \<open>
  The line loop of the multi-section branch with its variables \<open>current_title\<close> and
  \<open>current_lines\<close>, followed by the flush of the last section.
\<close>

fun section_loop ::
  "string list \<Rightarrow> string option \<Rightarrow> string list \<Rightarrow> int \<Rightarrow> string \<Rightarrow> (string \<times> string) list" where
  "section_loop [] current_title current_lines max_chars base_title =
     (if current_lines \<noteq> []
      then flush_section
             (case current_title of None \<Rightarrow> base_title
              | Some t \<Rightarrow> if t \<noteq> [] then t else base_title)
             current_lines max_chars
      else [])"
| "section_loop (line # lines) current_title current_lines max_chars base_title =
     (case roman_header (strip line) of
        Some title \<Rightarrow>
          (case current_title of
             None \<Rightarrow> []
           | Some t \<Rightarrow>
               if t \<noteq> [] \<and> current_lines \<noteq> [] then flush_section t current_lines max_chars
               else [])
          @ section_loop lines (Some title) [] max_chars base_title
      | None \<Rightarrow> section_loop lines current_title (current_lines @ [line]) max_chars base_title)"

definition base_title_of :: "string \<Rightarrow> string" where
  "base_title_of filename = title_case (replace_char (CHR ''_'') (CHR '' '') (splitext_root filename))"

definition iter_section_chunks :: "string \<Rightarrow> string \<Rightarrow> int \<Rightarrow> (string \<times> string) list" where
  "iter_section_chunks text filename max_chars =
     (let text = normalize_newlines text;
          multi = (filename \<in> set MULTI_SECTION_FILES);
          base_title = base_title_of filename in
      if \<not> multi
      then map (Pair base_title) (split_paragraphs_into_chunks (paragraphs_of text) max_chars)
      else section_loop (splitlines text) None [] max_chars base_title)"

subsection \<open>Predicates on lines\<close>

text \<open>
  A line is blank when stripping leaves nothing, as \<open>normalize_newlines\<close> tests it.
  \<open>no_double_blank\<close> says that no two neighbouring lines are both blank;
  \<open>break_free\<close> that a line holds no line-break character; \<open>normalized_lines\<close> is
  the list \<open>normalized_lines\<close> that \<open>normalize_newlines\<close> joins.
\<close>

fun no_double_blank :: "string list \<Rightarrow> bool" where
  "no_double_blank [] = True"
| "no_double_blank [l] = True"
| "no_double_blank (l # m # ls) = (\<not> (strip l = [] \<and> strip m = []) \<and> no_double_blank (m # ls))"

definition break_free :: "string \<Rightarrow> bool" where
  "break_free l = (\<forall>c \<in> set l. \<not> is_linebreak c)"

definition normalized_lines :: "string \<Rightarrow> string list" where
  "normalized_lines text = normalize_loop (splitlines text) 0"

subsection \<open>The invariant of the packing loop\<close>

text \<open>
  The loop invariant: \<open>cur_len\<close> never underestimates the length of the joined
  \<open>current\<close>, and a \<open>current\<close> of two or more paragraphs fits the budget.
\<close>

definition pack_inv :: "int \<Rightarrow> string list \<Rightarrow> int \<Rightarrow> bool" where
  "pack_inv m cur n =
     (cur = [] \<or> (int (length (join para_sep cur)) \<le> n \<and> (length cur = 1 \<or> n \<le> m)))"

definition chunk_ok :: "int \<Rightarrow> string list \<Rightarrow> bool" where
  "chunk_ok m g =
     (g \<noteq> [] \<and> (int (length (join para_sep g)) \<le> m \<or>
        (\<exists>p. g = [p] \<and> m < int (length p))))"

subsection \<open>What the chunks are compared with\<close>

text \<open>
  \<open>nonspace\<close> keeps the characters of a text that are not whitespace. \<open>is_header\<close>
  is the test of the line loop of \<open>iter_section_chunks\<close>; \<open>kept_lines\<close> are the lines
  of a document without the header lines of a multi-section file; \<open>no_header\<close> and
  \<open>blank_preamble\<close> say that a document has no header line, or nothing but blank lines
  before its first one. \<open>loop_ok\<close> is the state of the line loop in which no text is
  pending without a title that a later header would discard.
\<close>

definition nonspace :: "string \<Rightarrow> string" where
  "nonspace s = filter (\<lambda>c. \<not> isspace c) s"

definition is_header :: "string \<Rightarrow> bool" where
  "is_header line = (roman_header (strip line) \<noteq> None)"

definition kept_lines :: "string \<Rightarrow> string list \<Rightarrow> string list" where
  "kept_lines filename lines =
     (if filename \<in> set MULTI_SECTION_FILES then filter (\<lambda>l. \<not> is_header l) lines else lines)"

definition blank_preamble :: "string list \<Rightarrow> bool" where
  "blank_preamble lines = (\<forall>l \<in> set (takeWhile (\<lambda>l. \<not> is_header l) lines). strip l = [])"

definition no_header :: "string list \<Rightarrow> bool" where
  "no_header lines = (\<forall>l \<in> set lines. \<not> is_header l)"

definition loop_ok :: "string option \<Rightarrow> string list \<Rightarrow> string list \<Rightarrow> bool" where
  "loop_ok current_title current_lines lines =
     (truthy current_title \<or> no_header lines \<or>
      ((\<forall>l \<in> set current_lines. strip l = []) \<and> blank_preamble lines))"

text \<open>
  The sections of a multi-section document, read off its lines: the lines before the
  first header form a section without title, and every header line opens the section of
  its title; a section's body is the list of its lines, without the header.
  \<open>stripped_paragraphs\<close> are the pieces of a text between blank lines, stripped,
  without the empty ones; \<open>section_paragraphs\<close> are those of the stripped text of a
  section body, and
  \<open>section_chunks\<close> the chunks expected for a section, under its title or, where there is
  none, under the fallback title.
\<close>

fun sections_from :: "string option \<Rightarrow> string list \<Rightarrow> (string option \<times> string list) list" where
  "sections_from title [] = [(title, [])]"
| "sections_from title (line # lines) =
     (case roman_header (strip line) of
        Some t \<Rightarrow> (title, []) # sections_from (Some t) lines
      | None \<Rightarrow>
          (case sections_from title lines of
             [] \<Rightarrow> [(title, [line])]
           | (t0, body) # rest \<Rightarrow> (t0, line # body) # rest))"

definition sections_of :: "string list \<Rightarrow> (string option \<times> string list) list" where
  "sections_of lines = sections_from None lines"

definition stripped_paragraphs :: "string \<Rightarrow> string list" where
  "stripped_paragraphs s = filter (\<lambda>p. p \<noteq> []) (map strip (split_blank s))"

definition section_paragraphs :: "string list \<Rightarrow> string list" where
  "section_paragraphs body = stripped_paragraphs (strip (join [LF] body))"

definition section_chunks ::
  "string \<Rightarrow> int \<Rightarrow> string option \<times> string list \<Rightarrow> (string \<times> string) list" where
  "section_chunks base_title max_chars sec =
     map (Pair (case fst sec of None \<Rightarrow> base_title
                | Some t \<Rightarrow> if t \<noteq> [] then t else base_title))
       (split_paragraphs_into_chunks (section_paragraphs (snd sec)) max_chars)"


section \<open>Records, errors and the two backends\<close>

text \<open>
  The JSON records of \<open>chunks.jsonl\<close> and \<open>questions.jsonl\<close>. An exception is an
  \<open>error\<close>; a function that can raise returns \<open>error + 'a\<close>. \<open>BackendError\<close> stands for
  whatever \<open>requests\<close> raises in \<open>ollama_embed\<close> and \<open>ollama_chat\<close> (connection
  failure, timeout, \<open>raise_for_status\<close>, a response without the expected key).

  The two Ollama calls are parameters: functions \<open>ollama_embed\<close> and \<open>ollama_chat\<close>,
  applied to the model name and the text.
\<close>

record chunk =
  chunk_id :: string
  section_title :: string
  source_file :: string
  url :: string
  chunk_text :: string

record question =
  question_id :: string
  q_chunk_id :: string
  q_section_title :: string
  question_text :: string

datatype error = BackendError string | IndexError | ValueError | AxisError

type_synonym embed_backend = "string \<Rightarrow> string \<Rightarrow> error + real list"

type_synonym chat_backend = "string \<Rightarrow> string \<Rightarrow> error + string"

definition EMBED_MODEL :: string where
  "EMBED_MODEL = ''mxbai-embed-large:latest''"

definition GENERATOR_MODEL :: string where
  "GENERATOR_MODEL = ''qwen2.5:1.5b''"

definition DOC2QUERY_MODEL :: string where
  "DOC2QUERY_MODEL = ''qwen2.5:1.5b''"

section \<open>ask.py: retrieval and the answer gate\<close>

definition TOP_K_QUESTIONS :: nat where
  "TOP_K_QUESTIONS = 5"

definition MAX_CHUNKS :: nat where
  "MAX_CHUNKS = 1"

definition MIN_SIMILARITY :: real where
  "MIN_SIMILARITY = 68 / 100"

definition INSUFFICIENT :: string where
  "INSUFFICIENT = ''Insufficient context in the handbook sections I know.''"

subsection \<open>NumPy arrays\<close>

text \<open>
  A \<open>float32\<close> array as \<open>np.array\<close> builds it from the embedding vectors and as
  \<open>np.load\<close> reads it back: one-dimensional of shape \<open>(n,)\<close>, or two-dimensional of
  shape \<open>(N, d)\<close>, kept as \<open>d\<close> and the list of its \<open>N\<close> rows. \<open>np.array\<close> of
  the empty list is the one-dimensional array of shape \<open>(0,)\<close>, and it raises
  \<open>ValueError\<close> for vectors of different lengths.

  The entries are real numbers and the arithmetic on them is exact: the model covers the
  finite \<open>float32\<close> values, without their rounding. An overflow to \<open>inf\<close> or
  \<open>NaN\<close> has no counterpart here, and no general theorem below rests on the value of a
  similarity (the example runs use vectors whose \<open>float32\<close> results are exact).
\<close>

datatype ndarray = Array1 "real list" | Array2 nat "real list list"

definition np_array :: "real list list \<Rightarrow> error + ndarray" where
  "np_array vectors =
     (case vectors of
        [] \<Rightarrow> Inr (Array1 [])
      | v # vs \<Rightarrow>
          if list_all (\<lambda>w. length w = length v) vs then Inr (Array2 (length v) vectors)
          else Inl ValueError)"

text \<open>\<open>len(arr)\<close>, the size of the first axis.\<close>

fun n_rows :: "ndarray \<Rightarrow> nat" where
  "n_rows (Array1 xs) = length xs"
| "n_rows (Array2 d rows) = length rows"

subsection \<open>Cosine similarity\<close>

text \<open>
  \<open>cosine_sim_matrix\<close> in the order NumPy evaluates it: the norm of the query vector,
  then \<open>np.linalg.norm(mat, axis=1)\<close>, which raises \<open>AxisError\<close> for a one-dimensional
  array, then \<open>mat @ vec\<close>, which raises \<open>ValueError\<close> when the rows do not have the
  dimension of the query vector.
\<close>

definition EPS :: real where
  "EPS = 1 / 10 ^ 8"

definition dot :: "real list \<Rightarrow> real list \<Rightarrow> real" where
  "dot v w = (\<Sum>(x, y) \<leftarrow> zip v w. x * y)"

definition l2_norm :: "real list \<Rightarrow> real" where
  "l2_norm v = sqrt (\<Sum>x \<leftarrow> v. x * x)"

definition cosine_sim_matrix :: "real list \<Rightarrow> ndarray \<Rightarrow> error + real list" where
  "cosine_sim_matrix vec mat =
     (let vec_norm = l2_norm vec + EPS in
      case mat of
        Array1 xs \<Rightarrow> Inl AxisError
      | Array2 d rows \<Rightarrow>
          if length vec \<noteq> d then Inl ValueError
          else Inr (map (\<lambda>row. dot row vec / ((l2_norm row + EPS) * vec_norm)) rows))"

subsection \<open>Top-k selection\<close>

text \<open>
  \<open>np.argsort\<close> is called with its default \<open>kind\<close> (\<open>quicksort\<close>, which NumPy does
  not document as stable), so it is a parameter \<open>argsort\<close> of the model.
  \<open>np_argsort\<close> is NumPy's contract for it: the result lists every index of the array
  once, and the array read in that order is ascending.
\<close>

definition np_argsort :: "(real list \<Rightarrow> nat list) \<Rightarrow> bool" where
  "np_argsort argsort =
     (\<forall>xs. mset (argsort xs) = mset [0..<length xs] \<and> sorted (map (\<lambda>i. xs ! i) (argsort xs)))"

text \<open>\<open>np.argsort(-sims)[:TOP_K_QUESTIONS]\<close>\<close>

definition top_k_indices :: "(real list \<Rightarrow> nat list) \<Rightarrow> nat \<Rightarrow> real list \<Rightarrow> nat list" where
  "top_k_indices argsort k sims = take k (argsort (map uminus sims))"

subsection \<open>Retrieval\<close>

text \<open>
  The loop over \<open>top_indices\<close> that maps questions to chunks, with its variables
  \<open>seen\<close> and \<open>context_chunks\<close>; \<open>questions[int(idx)]\<close> raises \<open>IndexError\<close> out of
  range, and \<open>break\<close> ends the loop.
\<close>

fun collect_chunks ::
  "nat list \<Rightarrow> question list \<Rightarrow> (string \<rightharpoonup> chunk) \<Rightarrow> string list \<Rightarrow> chunk list
     \<Rightarrow> error + chunk list" where
  "collect_chunks [] questions chunks_by_id seen context_chunks = Inr context_chunks"
| "collect_chunks (idx # rest) questions chunks_by_id seen context_chunks =
     (if length questions \<le> idx then Inl IndexError
      else
        (let q_rec = questions ! idx; cid = q_chunk_id q_rec in
         if cid \<in> set seen then collect_chunks rest questions chunks_by_id seen context_chunks
         else
           (let seen' = cid # seen;
                context_chunks' =
                  (case chunks_by_id cid of
                     Some chunk \<Rightarrow> context_chunks @ [chunk]
                   | None \<Rightarrow> context_chunks) in
            if MAX_CHUNKS \<le> length context_chunks' then Inr context_chunks'
            else collect_chunks rest questions chunks_by_id seen' context_chunks')))"

definition retrieve_chunks_for_query ::
  "embed_backend \<Rightarrow> (real list \<Rightarrow> nat list) \<Rightarrow> string \<Rightarrow> ndarray \<Rightarrow> question list
     \<Rightarrow> (string \<rightharpoonup> chunk) \<Rightarrow> error + (real \<times> chunk list)" where
  "retrieve_chunks_for_query ollama_embed argsort user_q emb_matrix questions chunks_by_id =
     (case ollama_embed EMBED_MODEL user_q of
        Inl e \<Rightarrow> Inl e
      | Inr q_vec \<Rightarrow>
          (case cosine_sim_matrix q_vec emb_matrix of
             Inl e \<Rightarrow> Inl e
           | Inr sims \<Rightarrow>
               (let top_indices = top_k_indices argsort TOP_K_QUESTIONS sims in
                case (case top_indices of
                        [] \<Rightarrow> Inr 0
                      | i # _ \<Rightarrow> if i < length sims then Inr (sims ! i) else Inl IndexError) of
                  Inl e \<Rightarrow> Inl e
                | Inr max_sim \<Rightarrow>
                    (case collect_chunks top_indices questions chunks_by_id [] [] of
                       Inl e \<Rightarrow> Inl e
                     | Inr context_chunks \<Rightarrow> Inr (max_sim, context_chunks)))))"

subsection \<open>The prompt\<close>

definition CONTEXT_PROMPT_HEAD :: string where
  "CONTEXT_PROMPT_HEAD =
     ''\<newline>''
     @ ''Follow the rules below exactly. Do not violate or ignore any rule.\<newline>''
     @ ''\<newline>''
     @ ''RULES (read carefully):\<newline>''
     @ ''\<newline>''
     @ ''1. You must output exactly ONE of:\<newline>''
     @ ''   (a) an answer based ONLY on user enquiry and all relevant details in the excerpt,\<newline>''
     @ ''   (b) the exact string: \"I cannot help with that as it would violate college policy.\",\<newline>''
     @ ''   (c) the exact string: \"Insufficient context in the handbook sections I know.\"\<newline>''
     @ ''\<newline>''
     @ ''\<newline>''
     @ ''2. If the question explicitly seeks tips, strategies, or methods to break or sneak around college guidelines,\<newline>''
     @ ''   respond ONLY with line (b).\<newline>''
     @ ''\<newline>''
     @ ''\<newline>''
     @ ''3. If the question seeks to manipulate a specific person or group,\<newline>''
     @ ''   respond ONLY with line (b).\<newline>''
     @ ''\<newline>''
     @ ''\<newline>''
     @ ''4. If the excerpt includes policy language that directly relates to the question,\<newline>''
     @ ''   respond with line (a).\<newline>''
     @ ''\<newline>''
     @ ''\<newline>''
     @ ''5. If the excerpt does NOT include policy language that directly relates to the\<newline>''
     @ ''   question, respond ONLY with line (c).\<newline>''
     @ ''\<newline>''
     @ ''\<newline>''
     @ ''6. You must NOT guess, improvise, add assumptions, or supply information not in\<newline>''
     @ ''   the excerpt.\<newline>''
     @ ''\<newline>''
     @ ''\<newline>''
     @ ''7. You must NOT mention anything about the rules, excerpt, or knowledge base.\<newline>''
     @ ''\<newline>''
     @ ''\<newline>''
     @ ''--- EXCERPT START ---\<newline>''"

definition CONTEXT_PROMPT_MID :: string where
  "CONTEXT_PROMPT_MID =
     ''\<newline>''
     @ ''--- EXCERPT END ---\<newline>''
     @ ''\<newline>''
     @ ''USER QUESTION:\<newline>''"

definition CONTEXT_PROMPT_TAIL :: string where
  "CONTEXT_PROMPT_TAIL =
     ''\<newline>''
     @ ''\<newline>''
     @ ''YOUR RESPONSE:\<newline>''"

text \<open>
  \<open>build_context_prompt\<close> reads \<open>context_chunks[0]\<close>; both callers have checked that
  the list is not empty, and on the empty list the model raises as Python would.
\<close>

definition build_context_prompt :: "string \<Rightarrow> chunk list \<Rightarrow> error + string" where
  "build_context_prompt user_q context_chunks =
     (case context_chunks of
        [] \<Rightarrow> Inl IndexError
      | ch # _ \<Rightarrow>
          Inr (CONTEXT_PROMPT_HEAD @ chunk_text ch @ CONTEXT_PROMPT_MID @ user_q
               @ CONTEXT_PROMPT_TAIL))"

subsection \<open>Answering\<close>

text \<open>
  A run that talks to the generation backend is modelled by what it returns together
  with the list of the prompts it sent to \<open>ollama_chat\<close>, in order: the backend was not
  called when that list is empty.

  \<open>safe_generate_answer\<close> of \<open>score.py\<close>:
\<close>

definition safe_generate_answer ::
  "chat_backend \<Rightarrow> string \<Rightarrow> real \<Rightarrow> chunk list \<Rightarrow> string list \<times> (error + string)" where
  "safe_generate_answer ollama_chat user_q max_sim context_chunks =
     (if max_sim < MIN_SIMILARITY \<or> context_chunks = [] then ([], Inr INSUFFICIENT)
      else
        (case build_context_prompt user_q context_chunks of
           Inl e \<Rightarrow> ([], Inl e)
         | Inr prompt \<Rightarrow>
             ([prompt],
              case ollama_chat GENERATOR_MODEL prompt of
                Inl e \<Rightarrow> Inl e
              | Inr answer \<Rightarrow> Inr (strip answer))))"

text \<open>
  \<open>answer_query\<close> of \<open>ask.py\<close> prints instead of returning: the model returns the
  prompts sent, the text written to standard output (each \<open>print\<close> adds a line feed),
  and the error if one was raised. The dash of the citation lines is U+2013, written
  here as its UTF-8 bytes.
\<close>

definition EN_DASH :: string where
  "EN_DASH = [CHR 0xE2, CHR 0x80, CHR 0x93]"

definition citation_line :: "chunk \<Rightarrow> string" where
  "citation_line ch =
     (let title = section_title ch; u = url ch in
      if u \<noteq> [] then ''- '' @ title @ '' '' @ EN_DASH @ '' Student Handbook ('' @ u @ '')'' @ [LF]
      else ''- '' @ title @ '' '' @ EN_DASH @ '' Student Handbook'' @ [LF])"

definition answer_query ::
  "embed_backend \<Rightarrow> (real list \<Rightarrow> nat list) \<Rightarrow> chat_backend \<Rightarrow> string \<Rightarrow> ndarray
     \<Rightarrow> question list \<Rightarrow> (string \<rightharpoonup> chunk) \<Rightarrow> string list \<times> string \<times> error option" where
  "answer_query ollama_embed argsort ollama_chat user_q emb_matrix questions chunks_by_id =
     (case retrieve_chunks_for_query ollama_embed argsort user_q emb_matrix questions chunks_by_id of
        Inl e \<Rightarrow> ([], [], Some e)
      | Inr (max_sim, context_chunks) \<Rightarrow>
          if max_sim < MIN_SIMILARITY \<or> context_chunks = []
          then ([], INSUFFICIENT @ [LF] @ [LF], None)
          else
            (case build_context_prompt user_q context_chunks of
               Inl e \<Rightarrow> ([], [], Some e)
             | Inr prompt \<Rightarrow>
                 (case ollama_chat GENERATOR_MODEL prompt of
                    Inl e \<Rightarrow> ([prompt], [], Some e)
                  | Inr answer \<Rightarrow>
                      ([prompt],
                       strip answer @ [LF] @ [LF] @ ''Sources:'' @ [LF]
                         @ concat (map citation_line context_chunks) @ [LF],
                       None))))"

section \<open>index.py: doc2query questions and embeddings\<close>

definition N_QUESTIONS_PER_CHUNK :: nat where
  "N_QUESTIONS_PER_CHUNK = 3"

definition EMBED_NORMALIZED :: bool where
  "EMBED_NORMALIZED = False"

definition STOPWORDS :: "string list" where
  "STOPWORDS =
     [''the'', ''and'', ''or'', ''a'', ''an'', ''of'', ''to'', ''in'', ''for'', ''on'',
      ''at'', ''by'', ''is'', ''are'', ''be'', ''this'', ''that'', ''it'', ''with'',
      ''as'', ''from'', ''about'',
      ''what'', ''which'', ''who'', ''whom'', ''when'', ''where'', ''why'', ''how'',
      ''can'', ''could'', ''would'', ''should'', ''may'']"

subsection \<open>Regular expressions and formatting\<close>

text \<open>
  \<open>re.findall\<close> for a pattern \<open>[class]+\<close>: the maximal runs of characters of the
  class, from left to right. \<open>runs\<close> carries the run read so far.
\<close>

fun runs :: "(char \<Rightarrow> bool) \<Rightarrow> string \<Rightarrow> string \<Rightarrow> string list" where
  "runs P cur [] = (if cur = [] then [] else [cur])"
| "runs P cur (c # cs) =
     (if P c then runs P (cur @ [c]) cs
      else (if cur = [] then [] else [cur]) @ runs P [] cs)"

definition findall :: "(char \<Rightarrow> bool) \<Rightarrow> string \<Rightarrow> string list" where
  "findall P s = runs P [] s"

definition is_digit :: "char \<Rightarrow> bool" where
  "is_digit c = ((48::nat) \<le> of_char c \<and> of_char c \<le> (57::nat))"

text \<open>\<open>str(n)\<close> for a natural number, as the f-strings print it.\<close>

fun str_of_nat :: "nat \<Rightarrow> string" where
  "str_of_nat n =
     (if n < 10 then [char_of (48 + n)]
      else str_of_nat (n div 10) @ [char_of (48 + n mod 10)])"

declare str_of_nat.simps [simp del]

subsection \<open>Question generation\<close>

definition DOC2QUERY_PROMPT_1 :: string where
  "DOC2QUERY_PROMPT_1 =
     ''\<newline>''
     @ ''You are helping build a search index for the Centre College Student Handbook.\<newline>''
     @ ''\<newline>''
     @ ''You will be given:\<newline>''
     @ ''- the title of a handbook section\<newline>''
     @ ''- an excerpt from that section\<newline>''
     @ ''\<newline>''
     @ ''Write ''"

definition DOC2QUERY_PROMPT_2 :: string where
  "DOC2QUERY_PROMPT_2 =
     '' different questions that a student, parent, incoming student, or staff member might ask when trying to understand how these rules apply in real situations.\<newline>''
     @ ''\<newline>''
     @ ''Guidelines:\<newline>''
     @ ''- Sound natural and conversational, not like a textbook.\<newline>''
     @ ''- Do NOT prefix question statements with roles, categories, labels, or markdown of any kind.\<newline>''
     @ ''- You may ask about fines or sanctions only when the excerpt clearly mentions them, but do NOT invent additional penalties not stated.\<newline>''
     @ ''- Do NOT describe fictional accidents, mishaps, or made-up stories involving friends \"sneaking\" into a violation.\<newline>''
     @ ''- Do NOT ask about personal struggles, emotional support, family issues, relationship problems, or everyday mishaps; focus only on policy-related questions that this excerpt can answer.\<newline>''
     @ ''- Do NOT ask about household chores or routine personal tasks; only ask about enforceable policies stated in the excerpt.\<newline>''
     @ ''- Do NOT refer to any meta-level structure; questions must be written as if the user only knows general campus topics, not the handbook text you were shown.\<newline>''
     @ ''- Do NOT introduce sensitive topics unless they are explicitly stated in the excerpt.\<newline>''
     @ ''- Do NOT copy long phrases from the excerpt; paraphrase in your own words.\<newline>''
     @ ''- Each question must focus on a different situation or angle.\<newline>''
     @ ''- Keep each question to one sentence.\<newline>''
     @ ''\<newline>''
     @ ''\<newline>''
     @ ''Section title: ''"

definition DOC2QUERY_PROMPT_3 :: string where
  "DOC2QUERY_PROMPT_3 =
     ''\<newline>''
     @ ''\<newline>''
     @ ''Handbook excerpt:\<newline>''"

definition DOC2QUERY_PROMPT_4 :: string where
  "DOC2QUERY_PROMPT_4 =
     ''\<newline>''"

definition doc2query_prompt :: "string \<Rightarrow> string \<Rightarrow> string" where
  "doc2query_prompt title excerpt =
     DOC2QUERY_PROMPT_1 @ str_of_nat N_QUESTIONS_PER_CHUNK @ DOC2QUERY_PROMPT_2 @ title
       @ DOC2QUERY_PROMPT_3 @ excerpt @ DOC2QUERY_PROMPT_4"

text \<open>
  The \<open>while\<close> loop that removes list markers: as long as the line starts with one of
  \<open>-*0123456789\<close>, \<open>lstrip("-*0123456789. ")\<close> and then \<open>strip()\<close>.
\<close>

definition is_marker :: "char \<Rightarrow> bool" where
  "is_marker c = (c \<in> set ''-*0123456789'')"

definition is_marker_or_sep :: "char \<Rightarrow> bool" where
  "is_marker_or_sep c = (c \<in> set ''-*0123456789. '')"

function strip_markers :: "string \<Rightarrow> string" where
  "strip_markers line =
     (if line \<noteq> [] \<and> is_marker (hd line)
      then strip_markers (strip (dropWhile is_marker_or_sep line))
      else line)"
  by pat_completeness auto
termination
proof (relation "measure length")
  show "wf (measure length)" by simp
next
  fix line :: string
  assume a: "line \<noteq> [] \<and> is_marker (hd line)"
  then obtain c cs where line: "line = c # cs" by (cases line) auto
  with a have "is_marker_or_sep c" by (auto simp: is_marker_def is_marker_or_sep_def)
  then have "length (dropWhile is_marker_or_sep line) \<le> length cs"
    by (simp add: line length_dropWhile_le)
  moreover have "length (strip s) \<le> length s" for s
  proof -
    have "length (dropWhile isspace (rev (dropWhile isspace s))) \<le> length (rev (dropWhile isspace s))"
      by (rule length_dropWhile_le)
    also have "\<dots> \<le> length s" by (simp add: length_dropWhile_le)
    finally show ?thesis by (simp add: strip_def lstrip_def rstrip_def)
  qed
  ultimately have "length (strip (dropWhile is_marker_or_sep line)) < length line"
    using le_trans line by fastforce
  then show "(strip (dropWhile is_marker_or_sep line), line) \<in> measure length" by simp
qed

declare strip_markers.simps [simp del]

definition generate_questions_for_chunk ::
  "chat_backend \<Rightarrow> string \<Rightarrow> string \<Rightarrow> error + string list" where
  "generate_questions_for_chunk ollama_chat title excerpt =
     (case ollama_chat DOC2QUERY_MODEL (doc2query_prompt title excerpt) of
        Inl e \<Rightarrow> Inl e
      | Inr raw \<Rightarrow>
          (let lines = filter (\<lambda>l. l \<noteq> []) (map strip (splitlines raw));
               questions = filter (\<lambda>l. l \<noteq> []) (map strip_markers lines) in
           Inr (if N_QUESTIONS_PER_CHUNK < length questions
                then take N_QUESTIONS_PER_CHUNK questions else questions)))"

subsection \<open>The support filter\<close>

text \<open>\<open>_tokenize\<close>: \<open>re.findall(r"[A-Za-z]+", text.lower())\<close> without the stopwords.\<close>

definition tokenize :: "string \<Rightarrow> string list" where
  "tokenize s = filter (\<lambda>t. t \<notin> set STOPWORDS) (findall is_alpha (map to_lower s))"

definition has_basic_overlap :: "string \<Rightarrow> string \<Rightarrow> nat \<Rightarrow> bool" where
  "has_basic_overlap q excerpt min_overlap =
     (min_overlap \<le> card (set (tokenize q) \<inter> set (tokenize excerpt)))"

text \<open>
  \<open>_question_supported_by_chunk\<close>; \<open>n not in chunk_text\<close> is the substring test, here
  \<open>sublist\<close>.
\<close>

definition question_supported_by_chunk :: "string \<Rightarrow> string \<Rightarrow> bool" where
  "question_supported_by_chunk q excerpt =
     (let nums_q = findall is_digit q in
      if \<not> list_all (\<lambda>n. sublist n excerpt) nums_q then False
      else if \<not> has_basic_overlap q excerpt 2 then False
      else True)"

subsection \<open>Building the questions\<close>

text \<open>
  The records appended for one chunk: \<open>enumerate(clean)\<close> numbers the kept questions
  from \<open>i\<close> on.
\<close>

fun question_records :: "chunk \<Rightarrow> nat \<Rightarrow> string list \<Rightarrow> question list" where
  "question_records ch i [] = []"
| "question_records ch i (q # qs) =
     \<lparr>question_id = chunk_id ch @ ''_q'' @ str_of_nat i, q_chunk_id = chunk_id ch,
      q_section_title = section_title ch, question_text = q\<rparr>
     # question_records ch (Suc i) qs"

definition clean_questions :: "string list \<Rightarrow> string \<Rightarrow> string list" where
  "clean_questions raw_questions excerpt =
     filter (\<lambda>q. q \<noteq> [] \<and> question_supported_by_chunk q excerpt) (map strip raw_questions)"

fun build_questions :: "chat_backend \<Rightarrow> chunk list \<Rightarrow> error + question list" where
  "build_questions ollama_chat [] = Inr []"
| "build_questions ollama_chat (ch # chunks) =
     (case generate_questions_for_chunk ollama_chat (section_title ch) (chunk_text ch) of
        Inl e \<Rightarrow> Inl e
      | Inr raw_questions \<Rightarrow>
          (let clean = clean_questions raw_questions (chunk_text ch);
               records =
                 (if clean = [] then []
                  else question_records ch 0 (take N_QUESTIONS_PER_CHUNK clean)) in
           case build_questions ollama_chat chunks of
             Inl e \<Rightarrow> Inl e
           | Inr all_questions \<Rightarrow> Inr (records @ all_questions)))"

subsection \<open>Building and saving the embeddings\<close>

text \<open>
  The loop of \<open>build_embeddings\<close>: one call of the embedding backend per question, in
  order; the first error ends it.
\<close>

fun embed_all :: "embed_backend \<Rightarrow> question list \<Rightarrow> error + real list list" where
  "embed_all ollama_embed [] = Inr []"
| "embed_all ollama_embed (q # qs) =
     (case ollama_embed EMBED_MODEL (question_text q) of
        Inl e \<Rightarrow> Inl e
      | Inr vec \<Rightarrow>
          (case embed_all ollama_embed qs of
             Inl e \<Rightarrow> Inl e
           | Inr vectors \<Rightarrow> Inr (vec # vectors)))"

text \<open>
  \<open>build_embeddings\<close>: the array of the vectors, with the rows divided by their norms
  when \<open>EMBED_NORMALIZED\<close> is set (\<open>np.linalg.norm(arr, axis=1, keepdims=True)\<close> raises
  \<open>AxisError\<close> for the one-dimensional empty array).
\<close>

definition build_embeddings :: "embed_backend \<Rightarrow> question list \<Rightarrow> error + ndarray" where
  "build_embeddings ollama_embed questions =
     (case embed_all ollama_embed questions of
        Inl e \<Rightarrow> Inl e
      | Inr vectors \<Rightarrow>
          (case np_array vectors of
             Inl e \<Rightarrow> Inl e
           | Inr arr \<Rightarrow>
               if EMBED_NORMALIZED
               then (case arr of
                       Array1 xs \<Rightarrow> Inl AxisError
                     | Array2 d rows \<Rightarrow>
                         Inr (Array2 d (map (\<lambda>row. map (\<lambda>x. x / (l2_norm row + EPS)) row) rows)))
               else Inr arr))"

text \<open>
  The files of the index directory that \<open>main\<close> reads and writes: \<open>chunks.jsonl\<close>,
  and \<open>questions.jsonl\<close>, \<open>embeddings.npy\<close> and \<open>meta.json\<close>, each absent or holding a
  value.
\<close>

record meta =
  embedding_model :: string
  dimension :: nat
  normalized :: bool

record index_dir =
  chunks_file :: "chunk list"
  questions_file :: "question list option"
  embeddings_file :: "ndarray option"
  meta_file :: "meta option"

definition save_questions :: "question list \<Rightarrow> index_dir \<Rightarrow> index_dir" where
  "save_questions questions d = d\<lparr>questions_file := Some questions\<rparr>"

definition save_embeddings :: "ndarray \<Rightarrow> index_dir \<Rightarrow> index_dir" where
  "save_embeddings embeddings d =
     d\<lparr>embeddings_file := Some embeddings,
       meta_file := Some \<lparr>embedding_model = EMBED_MODEL,
                          dimension = (case embeddings of Array2 n rows \<Rightarrow> n | Array1 xs \<Rightarrow> 0),
                          normalized = EMBED_NORMALIZED\<rparr>\<rparr>"

text \<open>
  \<open>main\<close> of \<open>index.py\<close>: the exception that ends the run, if any, and the index
  directory as the run leaves it.
\<close>

definition index_main :: "chat_backend \<Rightarrow> embed_backend \<Rightarrow> index_dir \<Rightarrow> error option \<times> index_dir" where
  "index_main ollama_chat ollama_embed d =
     (case build_questions ollama_chat (chunks_file d) of
        Inl e \<Rightarrow> (Some e, d)
      | Inr questions \<Rightarrow>
          (let d1 = save_questions questions d in
           case build_embeddings ollama_embed questions of
             Inl e \<Rightarrow> (Some e, d1)
           | Inr emb_matrix \<Rightarrow> (None, save_embeddings emb_matrix d1)))"

text \<open>
  The invariant of the persisted index (spec, data model): the embedding matrix has one
  row per question of the question table.
\<close>

definition index_consistent :: "index_dir \<Rightarrow> bool" where
  "index_consistent d =
     (case (questions_file d, embeddings_file d) of
        (Some qs, Some m) \<Rightarrow> n_rows m = length qs
      | (None, None) \<Rightarrow> True
      | _ \<Rightarrow> False)"

section \<open>score.py: the evaluator\<close>

text \<open>
  A row of \<open>gold.csv\<close> as \<open>csv.DictReader\<close> gives it; the \<open>gold_chunk\<close> field may be
  missing (\<open>None\<close>) or empty. A row of \<open>results.csv\<close>: \<open>hit1\<close> is \<open>1\<close>, \<open>0\<close> or the
  empty string, here \<open>None\<close>.
\<close>

record gold_row =
  qid :: string
  gold_question :: string
  qtype :: string
  gold_chunk :: "string option"
  gold_notes :: string

record result_row =
  r_qid :: string
  r_question :: string
  r_type :: string
  r_gold_chunk :: string
  r_pred_chunk :: string
  r_hit1 :: "nat option"
  r_answer_text :: string
  r_notes :: string

text \<open>
  The summary that \<open>main\<close> prints: the number of answerable normal questions with the
  hit rate \<open>total_hits / total_normals\<close> (printed with three decimals), or the message
  that there is none.
\<close>

datatype summary = Hit_at_1 nat real | No_answerable_normal_questions

text \<open>
  The body of the loop over the gold rows for one row: the result row and the amounts
  added to \<open>total_normals\<close> and \<open>total_hits\<close>. Retrieval and generation can raise.
\<close>

definition stripped_gold :: "gold_row \<Rightarrow> string" where
  "stripped_gold row = (case gold_chunk row of None \<Rightarrow> [] | Some g \<Rightarrow> if g \<noteq> [] then strip g else [])"

definition score_row ::
  "embed_backend \<Rightarrow> (real list \<Rightarrow> nat list) \<Rightarrow> chat_backend \<Rightarrow> ndarray
     \<Rightarrow> question list \<Rightarrow> (string \<rightharpoonup> chunk) \<Rightarrow> gold_row \<Rightarrow> error + (result_row \<times> nat \<times> nat)" where
  "score_row ollama_embed argsort ollama_chat emb_matrix questions chunks_by_id row =
     (let qtext = gold_question row; g = stripped_gold row in
      case retrieve_chunks_for_query ollama_embed argsort qtext emb_matrix questions chunks_by_id of
        Inl e \<Rightarrow> Inl e
      | Inr (max_sim, context_chunks) \<Rightarrow>
          (let pred_chunk = (case context_chunks of [] \<Rightarrow> [] | ch # _ \<Rightarrow> chunk_id ch);
               counted = (qtype row = ''normal'' \<and> g \<noteq> []);
               hit = (if pred_chunk = g then 1 else 0) in
           case snd (safe_generate_answer ollama_chat qtext max_sim context_chunks) of
             Inl e \<Rightarrow> Inl e
           | Inr answer_text \<Rightarrow>
               Inr (\<lparr>r_qid = qid row, r_question = qtext, r_type = qtype row,
                     r_gold_chunk = g, r_pred_chunk = pred_chunk,
                     r_hit1 = (if counted then Some hit else None),
                     r_answer_text = answer_text, r_notes = gold_notes row\<rparr>,
                    if counted then 1 else 0,
                    if counted then hit else 0)))"

text \<open>
  The loop with its variables \<open>total_normals\<close>, \<open>total_hits\<close> and \<open>out_rows\<close>.
\<close>

fun score_loop ::
  "embed_backend \<Rightarrow> (real list \<Rightarrow> nat list) \<Rightarrow> chat_backend \<Rightarrow> ndarray
     \<Rightarrow> question list \<Rightarrow> (string \<rightharpoonup> chunk) \<Rightarrow> gold_row list \<Rightarrow> nat \<Rightarrow> nat
     \<Rightarrow> result_row list \<Rightarrow> error + (nat \<times> nat \<times> result_row list)" where
  "score_loop ollama_embed argsort ollama_chat emb_matrix questions chunks_by_id []
     total_normals total_hits out_rows = Inr (total_normals, total_hits, out_rows)"
| "score_loop ollama_embed argsort ollama_chat emb_matrix questions chunks_by_id (row # gold)
     total_normals total_hits out_rows =
     (case score_row ollama_embed argsort ollama_chat emb_matrix questions chunks_by_id row of
        Inl e \<Rightarrow> Inl e
      | Inr (out_row, n, h) \<Rightarrow>
          score_loop ollama_embed argsort ollama_chat emb_matrix questions chunks_by_id gold
            (total_normals + n) (total_hits + h) (out_rows @ [out_row]))"

text \<open>
  \<open>main\<close> of \<open>score.py\<close>: the rows written to \<open>results.csv\<close> and the summary, or the
  exception that ended the run.
\<close>

definition score_main ::
  "embed_backend \<Rightarrow> (real list \<Rightarrow> nat list) \<Rightarrow> chat_backend \<Rightarrow> ndarray
     \<Rightarrow> question list \<Rightarrow> (string \<rightharpoonup> chunk) \<Rightarrow> gold_row list
     \<Rightarrow> error + (result_row list \<times> summary)" where
  "score_main ollama_embed argsort ollama_chat emb_matrix questions chunks_by_id gold =
     (case score_loop ollama_embed argsort ollama_chat emb_matrix questions chunks_by_id gold 0 0 [] of
        Inl e \<Rightarrow> Inl e
      | Inr (total_normals, total_hits, out_rows) \<Rightarrow>
          Inr (out_rows,
               if 0 < total_normals
               then Hit_at_1 total_normals (real total_hits / real total_normals)
               else No_answerable_normal_questions))"

section \<open>Two sorting routines that meet NumPy's contract\<close>

text \<open>
  Insertion sort by value on the pairs (value, index). \<open>argsort_stable\<close> starts from
  the pairs in index order and so keeps equal values in index order;
  \<open>argsort_ties_last\<close> starts from the reversed list and returns equal values in
  descending index order. Both return a permutation of the indices that sorts the array.
\<close>

definition argsort_stable :: "real list \<Rightarrow> nat list" where
  "argsort_stable xs = map snd (sort_key fst (zip xs [0..<length xs]))"

definition argsort_ties_last :: "real list \<Rightarrow> nat list" where
  "argsort_ties_last xs = map snd (sort_key fst (rev (zip xs [0..<length xs])))"

section \<open>Counting the evaluator's result rows\<close>

text \<open>
  A result row is eligible for the hit rate when its case is of type \<open>normal\<close> and has
  a non-empty gold chunk; it is a hit when moreover the predicted chunk is the gold chunk.
\<close>

definition eligible :: "result_row \<Rightarrow> bool" where
  "eligible r = (r_type r = ''normal'' \<and> r_gold_chunk r \<noteq> [])"

definition is_hit :: "result_row \<Rightarrow> bool" where
  "is_hit r = (eligible r \<and> r_pred_chunk r = r_gold_chunk r)"

section \<open>A small index and gold set\<close>

text \<open>
  One chunk, its one synthetic question, and three gold cases: a hit, a miss and a case
  that is not of type \<open>normal\<close>, with the result rows the evaluator writes for them.
\<close>

definition demo_chunk :: chunk where
  "demo_chunk = \<lparr>chunk_id = ''chunk_0'', section_title = ''Attendance'',
     source_file = ''attendance.txt'', url = [],
     chunk_text = ''Students may have up to 2 unexcused absences''\<rparr>"

definition demo_question :: question where
  "demo_question = \<lparr>question_id = ''chunk_0_q0'', q_chunk_id = ''chunk_0'',
     q_section_title = ''Attendance'',
     question_text = ''How many unexcused absences are allowed?''\<rparr>"

definition gold_hit :: gold_row where
  "gold_hit = \<lparr>qid = ''q1'', gold_question = ''how many absences can I miss'',
     qtype = ''normal'', gold_chunk = Some '' chunk_0 '', gold_notes = []\<rparr>"

definition gold_miss :: gold_row where
  "gold_miss = \<lparr>qid = ''q2'', gold_question = ''where can I park'', qtype = ''normal'',
     gold_chunk = Some ''chunk_7'', gold_notes = []\<rparr>"

definition gold_other :: gold_row where
  "gold_other = \<lparr>qid = ''q3'', gold_question = ''how do I sneak in'',
     qtype = ''adversarial'', gold_chunk = None, gold_notes = ''refusal''\<rparr>"

definition result_hit :: result_row where
  "result_hit = \<lparr>r_qid = ''q1'', r_question = ''how many absences can I miss'',
     r_type = ''normal'', r_gold_chunk = ''chunk_0'', r_pred_chunk = ''chunk_0'',
     r_hit1 = Some 1, r_answer_text = INSUFFICIENT, r_notes = []\<rparr>"

definition result_miss :: result_row where
  "result_miss = \<lparr>r_qid = ''q2'', r_question = ''where can I park'', r_type = ''normal'',
     r_gold_chunk = ''chunk_7'', r_pred_chunk = ''chunk_0'', r_hit1 = Some 0,
     r_answer_text = INSUFFICIENT, r_notes = []\<rparr>"

definition result_other :: result_row where
  "result_other = \<lparr>r_qid = ''q3'', r_question = ''how do I sneak in'',
     r_type = ''adversarial'', r_gold_chunk = [], r_pred_chunk = ''chunk_0'',
     r_hit1 = None, r_answer_text = INSUFFICIENT, r_notes = ''refusal''\<rparr>"


section \<open>Texts that end in a blank line\<close>

text \<open>
  The input has a non-blank line and its last line is blank: the one case in which the
  output of \<open>normalize_newlines\<close> ends with a line feed.
\<close>

definition blank_last_line :: "string \<Rightarrow> bool" where
  "blank_last_line t =
     (splitlines t \<noteq> [] \<and> strip (last (splitlines t)) = []
      \<and> (\<exists>l \<in> set (splitlines t). strip l \<noteq> []))"

section \<open>An indexing run with a failing embedding backend\<close>

text \<open>
  A generation backend that answers with three lines, of which the second names a number
  that is not in the chunk; an embedding backend that times out on every call; and an
  index directory that holds a consistent index of one question from an earlier run.
  \<open>new_questions\<close> are the questions the run builds for \<open>demo_chunk\<close>.
\<close>

definition demo_chat :: chat_backend where
  "demo_chat model prompt =
     Inr ''1. How many unexcused absences may students have, up to 2?\<newline>- What happens after 7 unexcused absences?\<newline>\<newline>* Who may have unexcused absences?''"

definition failing_embed :: embed_backend where
  "failing_embed model text =
     (if text = ''Who may have unexcused absences?'' then Inl (BackendError ''timeout'')
      else Inr [1, 0])"

definition old_index :: index_dir where
  "old_index = \<lparr>chunks_file = [demo_chunk], questions_file = Some [demo_question],
     embeddings_file = Some (Array2 2 [[1, 0]]),
     meta_file = Some \<lparr>embedding_model = EMBED_MODEL, dimension = 2, normalized = False\<rparr>\<rparr>"

definition new_questions :: "question list" where
  "new_questions =
     [\<lparr>question_id = ''chunk_0_q0'', q_chunk_id = ''chunk_0'', q_section_title = ''Attendance'',
       question_text = ''How many unexcused absences may students have, up to 2?''\<rparr>,
      \<lparr>question_id = ''chunk_0_q1'', q_chunk_id = ''chunk_0'', q_section_title = ''Attendance'',
       question_text = ''Who may have unexcused absences?''\<rparr>]"

section \<open>Properties\<close>

subsection \<open>Lines and blank-line normalisation\<close>

lemma CR_linebreak [simp]: "is_linebreak CR" "is_linebreak LF" "CR \<noteq> LF" "LF \<noteq> CR"
  by (simp_all add: is_linebreak_def CR_def LF_def)

lemma break_free_Cons: "break_free (c # l) = (\<not> is_linebreak c \<and> break_free l)"
  by (simp add: break_free_def)

lemma splitlines_all_break_free: "\<forall>l \<in> set (splitlines s). break_free l"
proof (induction s rule: splitlines.induct)
  case 1
  then show ?case by simp
next
  case (2 c cs)
  show ?case
  proof (cases "c = CR \<and> cs \<noteq> [] \<and> hd cs = LF")
    case True
    with 2 show ?thesis by (simp add: break_free_def)
  next
    case nocrlf: False
    show ?thesis
    proof (cases "is_linebreak c")
      case True
      with nocrlf 2 show ?thesis by (simp add: break_free_def)
    next
      case False
      with nocrlf 2 have IH: "\<forall>l \<in> set (splitlines cs). break_free l" by simp
      show ?thesis
      proof (cases "splitlines cs")
        case Nil
        with nocrlf False show ?thesis by (auto simp: break_free_def)
      next
        case (Cons l ls)
        with IH have "break_free l" "\<forall>l \<in> set ls. break_free l" by simp_all
        with nocrlf False Cons show ?thesis by (auto simp: break_free_Cons)
      qed
    qed
  qed
qed

lemma splitlines_line_LF:
  "break_free l \<Longrightarrow> splitlines (l @ LF # rest) = l # splitlines rest"
proof (induction l)
  case Nil
  then show ?case by simp
next
  case (Cons c l)
  then have "\<not> is_linebreak c" "break_free l" by (simp_all add: break_free_def)
  moreover from this have "c \<noteq> CR" by auto
  ultimately show ?case using Cons.IH by simp
qed

lemma splitlines_single:
  "break_free l \<Longrightarrow> splitlines l = (if l = [] then [] else [l])"
proof (induction l)
  case Nil
  then show ?case by simp
next
  case (Cons c l)
  then have "\<not> is_linebreak c" "break_free l" by (simp_all add: break_free_def)
  moreover from this have "c \<noteq> CR" by auto
  ultimately show ?case using Cons.IH by simp
qed

lemma splitlines_join:
  "\<forall>l \<in> set L. break_free l \<Longrightarrow>
   splitlines (join [LF] L) = (if L \<noteq> [] \<and> last L = [] then butlast L else L)"
proof (induction "[LF]" L rule: join.induct)
  case 1
  then show ?case by simp
next
  case (2 x)
  then show ?case by (simp add: splitlines_single)
next
  case (3 x y ys)
  then show ?case by (simp add: splitlines_line_LF)
qed


lemma normalize_loop_lines:
  "l \<in> set (normalize_loop ls k) \<Longrightarrow> l = [] \<or> (strip l \<noteq> [] \<and> l \<in> set ls)"
  by (induction ls arbitrary: k) (auto split: if_splits)

lemma strip_Nil [simp]: "strip [] = []"
  by (simp add: strip_def lstrip_def rstrip_def)

lemma normalize_loop_head:
  "0 < k \<Longrightarrow> normalize_loop ls k = [] \<or> strip (hd (normalize_loop ls k)) \<noteq> []"
  by (induction ls arbitrary: k) auto

lemma no_double_blank_Cons:
  "no_double_blank (l # ls) = ((strip l = [] \<longrightarrow> ls = [] \<or> strip (hd ls) \<noteq> []) \<and> no_double_blank ls)"
  by (cases ls) auto

lemma normalize_loop_no_double_blank: "no_double_blank (normalize_loop ls k)"
proof (induction ls arbitrary: k)
  case Nil
  then show ?case by simp
next
  case (Cons l ls)
  show ?case
    using Cons.IH normalize_loop_head [of "Suc k" ls]
    by (auto simp: no_double_blank_Cons)
qed

lemma normalize_loop_fixed:
  "no_double_blank L \<Longrightarrow> \<forall>l \<in> set L. strip l = [] \<longrightarrow> l = [] \<Longrightarrow>
   (0 < k \<longrightarrow> L = [] \<or> strip (hd L) \<noteq> []) \<Longrightarrow> normalize_loop L k = L"
proof (induction L arbitrary: k)
  case Nil
  then show ?case by simp
next
  case (Cons l L)
  from Cons.prems(1) have ndb: "no_double_blank L"
    and nxt: "strip l = [] \<longrightarrow> L = [] \<or> strip (hd L) \<noteq> []"
    by (simp_all add: no_double_blank_Cons)
  from Cons.prems(2) have blank: "\<forall>l \<in> set L. strip l = [] \<longrightarrow> l = []" by simp
  show ?case
  proof (cases "strip l = []")
    case True
    with Cons.prems have "k = 0" "l = []" by auto
    moreover have "normalize_loop L (Suc 0) = L"
      using Cons.IH [OF ndb blank] nxt True by simp
    ultimately show ?thesis by simp
  next
    case False
    moreover have "normalize_loop L 0 = L" using Cons.IH [OF ndb blank] by simp
    ultimately show ?thesis by simp
  qed
qed

lemma no_double_blank_butlast: "no_double_blank L \<Longrightarrow> no_double_blank (butlast L)"
  by (induction L rule: no_double_blank.induct) (auto simp: no_double_blank_Cons)


lemma break_free_last:
  assumes "break_free l" "l \<noteq> []"
  shows "last l \<noteq> LF"
proof -
  from assms(2) have "last l \<in> set l" by simp
  with assms(1) have "\<not> is_linebreak (last l)" by (simp add: break_free_def)
  then show ?thesis by auto
qed

lemma join_eq_Nil: "join [LF] L = [] \<longleftrightarrow> L = [] \<or> L = [[]]"
  by (induction "[LF]" L rule: join.induct) simp_all

lemma join_last_LF:
  "\<forall>l \<in> set L. break_free l \<Longrightarrow>
   (join [LF] L \<noteq> [] \<and> last (join [LF] L) = LF) = (2 \<le> length L \<and> last L = [])"
proof (induction "[LF]" L rule: join.induct)
  case 1
  then show ?case by simp
next
  case (2 x)
  then show ?case using break_free_last [of x] by auto
next
  case (3 x y ys)
  then have IH: "(join [LF] (y # ys) \<noteq> [] \<and> last (join [LF] (y # ys)) = LF)
      = (2 \<le> length (y # ys) \<and> last (y # ys) = [])"
    by simp
  show ?case
  proof (cases "join [LF] (y # ys) = []")
    case True
    then have "y # ys = [[]]" by (simp add: join_eq_Nil)
    with True show ?thesis by simp
  next
    case False
    then have "y # ys \<noteq> [[]]" by (auto simp: join_eq_Nil)
    with False IH show ?thesis by (cases ys) auto
  qed
qed

lemma join_butlast:
  "2 \<le> length L \<Longrightarrow> last L = [] \<Longrightarrow> join [LF] (butlast L) = butlast (join [LF] L)"
proof (induction "[LF]" L rule: join.induct)
  case 1
  then show ?case by simp
next
  case (2 x)
  then show ?case by simp
next
  case (3 x y ys)
  show ?case
  proof (cases ys)
    case Nil
    with 3 show ?thesis by (simp add: butlast_append)
  next
    case (Cons z zs)
    with 3 have "join [LF] (butlast (y # ys)) = butlast (join [LF] (y # ys))" by simp
    moreover from Cons have "join [LF] (y # ys) \<noteq> []" by (simp add: join_eq_Nil)
    ultimately show ?thesis using Cons by (simp add: butlast_append)
  qed
qed

lemma normalized_lines_break_free: "\<forall>l \<in> set (normalized_lines t). break_free l"
proof
  fix l
  assume "l \<in> set (normalized_lines t)"
  then have "l = [] \<or> l \<in> set (splitlines t)"
    using normalize_loop_lines [of l "splitlines t" 0] by (auto simp: normalized_lines_def)
  then show "break_free l"
    using splitlines_all_break_free [of t] by (auto simp: break_free_def)
qed

lemma normalized_lines_blank: "\<forall>l \<in> set (normalized_lines t). strip l = [] \<longrightarrow> l = []"
  using normalize_loop_lines [of _ "splitlines t" 0] by (auto simp: normalized_lines_def)

lemma in_set_butlast_imp: "\<forall>l \<in> set L. P l \<Longrightarrow> \<forall>l \<in> set (butlast L). P l"
  by (auto dest: in_set_butlastD)

lemma normalize_twice_lines:
  "normalize_newlines (normalize_newlines t) =
     join [LF] (if normalized_lines t \<noteq> [] \<and> last (normalized_lines t) = []
                then butlast (normalized_lines t) else normalized_lines t)"
proof -
  let ?L = "normalized_lines t"
  let ?L' = "if ?L \<noteq> [] \<and> last ?L = [] then butlast ?L else ?L"
  have split: "splitlines (normalize_newlines t) = ?L'"
    using splitlines_join [OF normalized_lines_break_free]
    by (simp add: normalize_newlines_def normalized_lines_def)
  have ndb: "no_double_blank ?L'"
    using normalize_loop_no_double_blank [of "splitlines t" 0]
    by (simp add: normalized_lines_def no_double_blank_butlast)
  have blank: "\<forall>l \<in> set ?L'. strip l = [] \<longrightarrow> l = []"
    using normalized_lines_blank [of t] by (auto dest: in_set_butlastD)
  have "normalize_loop ?L' 0 = ?L'"
    using normalize_loop_fixed [OF ndb blank] by simp
  with split show ?thesis by (simp add: normalize_newlines_def)
qed

lemma normalize_loop_all_blank:
  "\<forall>l \<in> set ls. strip l = [] \<Longrightarrow>
   normalize_loop ls (Suc k) = [] \<and> (ls \<noteq> [] \<longrightarrow> normalize_loop ls 0 = [[]])"
  by (induction ls arbitrary: k) auto

lemma normalize_loop_keeps_nonblank:
  "l \<in> set ls \<Longrightarrow> strip l \<noteq> [] \<Longrightarrow> l \<in> set (normalize_loop ls k)"
  by (induction ls arbitrary: k) auto

lemma normalize_loop_last_nonblank:
  "ls \<noteq> [] \<Longrightarrow> strip (last ls) \<noteq> [] \<Longrightarrow>
   normalize_loop ls k \<noteq> [] \<and> last (normalize_loop ls k) = last ls"
proof (induction ls arbitrary: k)
  case Nil
  then show ?case by simp
next
  case (Cons l ls)
  show ?case
  proof (cases "ls = []")
    case True
    with Cons.prems show ?thesis by simp
  next
    case False
    with Cons.prems have "strip (last ls) \<noteq> []" by simp
    from Cons.IH [OF False this] False show ?thesis by simp
  qed
qed

lemma normalize_loop_last_blank:
  "ls \<noteq> [] \<Longrightarrow> strip (last ls) = [] \<Longrightarrow> \<exists>l \<in> set ls. strip l \<noteq> [] \<Longrightarrow>
   normalize_loop ls k \<noteq> [] \<and> last (normalize_loop ls k) = []"
proof (induction ls arbitrary: k)
  case Nil
  then show ?case by simp
next
  case (Cons l ls)
  from Cons.prems have ne: "ls \<noteq> []" by (cases ls) auto
  with Cons.prems have lb: "strip (last ls) = []" by simp
  show ?case
  proof (cases "\<exists>l \<in> set ls. strip l \<noteq> []")
    case True
    from Cons.IH [OF ne lb True] show ?thesis by simp
  next
    case False
    then have blank: "\<forall>l \<in> set ls. strip l = []" by simp
    with Cons.prems have "strip l \<noteq> []" by auto
    moreover from normalize_loop_all_blank [OF blank] ne have "normalize_loop ls 0 = [[]]" by simp
    ultimately show ?thesis by simp
  qed
qed

lemma no_double_blank_before_last:
  "no_double_blank L \<Longrightarrow> 2 \<le> length L \<Longrightarrow> strip (last L) = [] \<Longrightarrow> \<exists>l \<in> set L. strip l \<noteq> []"
proof (induction L rule: no_double_blank.induct)
  case 1
  then show ?case by simp
next
  case (2 l)
  then show ?case by simp
next
  case (3 l m ls)
  show ?case
  proof (cases ls)
    case Nil
    with 3 show ?thesis by auto
  next
    case (Cons n ns)
    with 3 have "\<exists>l \<in> set (m # ls). strip l \<noteq> []" by simp
    then show ?thesis by auto
  qed
qed

lemma trailing_blank_iff:
  "(2 \<le> length (normalized_lines t) \<and> last (normalized_lines t) = []) = blank_last_line t"
proof
  let ?ls = "splitlines t"
  let ?L = "normalized_lines t"
  assume a: "2 \<le> length ?L \<and> last ?L = []"
  have L: "?L = normalize_loop ?ls 0" by (simp add: normalized_lines_def)
  from a have ne: "?ls \<noteq> []" by (auto simp: normalized_lines_def)
  have lb: "strip (last ?ls) = []"
  proof (rule ccontr)
    assume n: "strip (last ?ls) \<noteq> []"
    from normalize_loop_last_nonblank [OF ne n, of 0] a L have "last ?ls = []" by auto
    with n show False by simp
  qed
  have "no_double_blank ?L" by (simp add: normalized_lines_def normalize_loop_no_double_blank)
  with a have "\<exists>l \<in> set ?L. strip l \<noteq> []" by (simp add: no_double_blank_before_last)
  then obtain l where "l \<in> set ?L" "strip l \<noteq> []" by blast
  with normalize_loop_lines [of l ?ls 0] L have "l \<in> set ?ls" by auto
  with \<open>strip l \<noteq> []\<close> ne lb show "blank_last_line t" by (auto simp: blank_last_line_def)
next
  let ?ls = "splitlines t"
  let ?L = "normalized_lines t"
  assume "blank_last_line t"
  then have ne: "?ls \<noteq> []" and lb: "strip (last ?ls) = []"
    and ex: "\<exists>l \<in> set ?ls. strip l \<noteq> []"
    by (simp_all add: blank_last_line_def)
  have L: "?L = normalize_loop ?ls 0" by (simp add: normalized_lines_def)
  from normalize_loop_last_blank [OF ne lb ex, of 0] L
  have Lne: "?L \<noteq> []" and last: "last ?L = []" by simp_all
  from ex obtain l where l: "l \<in> set ?ls" "strip l \<noteq> []" by blast
  then have "l \<in> set ?L" unfolding L by (rule normalize_loop_keeps_nonblank)
  moreover from l have "l \<noteq> []" by auto
  ultimately have "?L \<noteq> [[]]" by auto
  with Lne last have "2 \<le> length ?L" by (cases ?L) (auto simp: Suc_le_eq)
  with last show "2 \<le> length ?L \<and> last ?L = []" by simp
qed

text \<open>
  C10 (as amended). The lines of the output of \<open>normalize_newlines\<close> never hold two
  consecutive blank lines. The output ends with a line feed exactly when the input has a
  non-blank line and its last line is blank. Applying \<open>normalize_newlines\<close> to its own
  output returns that output unchanged for every other input; for an input with a
  non-blank line and a blank last line the second application removes exactly the final
  line feed of the output.
\<close>

theorem normalize_newlines_twice:
  "no_double_blank (splitlines (normalize_newlines t))
   \<and> (normalize_newlines t \<noteq> [] \<and> last (normalize_newlines t) = LF) = blank_last_line t
   \<and> normalize_newlines (normalize_newlines t) =
       (if blank_last_line t then butlast (normalize_newlines t) else normalize_newlines t)"
proof -
  let ?L = "normalized_lines t"
  have out: "normalize_newlines t = join [LF] ?L"
    by (simp add: normalize_newlines_def normalized_lines_def)
  have "(normalize_newlines t \<noteq> [] \<and> last (normalize_newlines t) = LF)
      = (2 \<le> length ?L \<and> last ?L = [])"
    unfolding out by (rule join_last_LF [OF normalized_lines_break_free])
  then have trail: "(normalize_newlines t \<noteq> [] \<and> last (normalize_newlines t) = LF)
      = blank_last_line t"
    by (simp only: trailing_blank_iff)
  have two: "(2 \<le> length ?L \<and> last ?L = []) = blank_last_line t" by (rule trailing_blank_iff)
  have ndb: "no_double_blank ?L"
    by (simp add: normalized_lines_def normalize_loop_no_double_blank)
  have lines: "splitlines (normalize_newlines t) =
      (if ?L \<noteq> [] \<and> last ?L = [] then butlast ?L else ?L)"
    unfolding out by (rule splitlines_join [OF normalized_lines_break_free])
  have second: "no_double_blank (splitlines (normalize_newlines t))"
    unfolding lines using ndb by (simp add: no_double_blank_butlast)
  have first: "normalize_newlines (normalize_newlines t) =
     (if blank_last_line t then butlast (normalize_newlines t) else normalize_newlines t)"
  proof (cases "blank_last_line t")
    case True
    with two have L2: "2 \<le> length ?L \<and> last ?L = []" by simp
    then have "?L \<noteq> []" by auto
    with L2 have "normalize_newlines (normalize_newlines t) = join [LF] (butlast ?L)"
      by (simp add: normalize_twice_lines)
    also have "\<dots> = butlast (normalize_newlines t)"
      unfolding out using L2 by (simp add: join_butlast)
    finally show ?thesis using True by simp
  next
    case False
    with two have notL2: "\<not> (2 \<le> length ?L \<and> last ?L = [])" by simp
    show ?thesis
    proof (cases "?L \<noteq> [] \<and> last ?L = []")
      case True
      with notL2 have "length ?L = 1" by (cases ?L) (auto simp: Suc_le_eq)
      with True have single: "?L = [[]]" by (cases ?L) auto
      then have "normalize_newlines (normalize_newlines t) = []"
        using normalize_twice_lines [of t] by simp
      moreover have "normalize_newlines t = []" using out single by simp
      ultimately show ?thesis using False by simp
    next
      case nb: False
      then have "normalize_newlines (normalize_newlines t) = normalize_newlines t"
        using normalize_twice_lines [of t] out by auto
      then show ?thesis using False by simp
    qed
  qed
  from first second trail show ?thesis by simp
qed

theorem normalize_newlines_twice_witness:
  "blank_last_line ''a\<newline>\<newline>''
   \<and> normalize_newlines ''a\<newline>\<newline>'' = ''a\<newline>''
   \<and> normalize_newlines (normalize_newlines ''a\<newline>\<newline>'') = ''a''
   \<and> \<not> blank_last_line ''\<newline>\<newline>''
   \<and> normalize_newlines (normalize_newlines ''\<newline>\<newline>'') = normalize_newlines ''\<newline>\<newline>''"
proof -
  have e1: "blank_last_line ''a\<newline>\<newline>''" by code_simp
  have e2: "normalize_newlines ''a\<newline>\<newline>'' = ''a\<newline>''" by code_simp
  have e3: "\<not> blank_last_line ''\<newline>\<newline>''" by code_simp
  have "normalize_newlines (normalize_newlines ''a\<newline>\<newline>'') =
      (if blank_last_line ''a\<newline>\<newline>'' then butlast (normalize_newlines ''a\<newline>\<newline>'')
       else normalize_newlines ''a\<newline>\<newline>'')"
    by (rule conjunct2 [OF conjunct2 [OF normalize_newlines_twice]])
  then have a: "normalize_newlines (normalize_newlines ''a\<newline>\<newline>'') = butlast ''a\<newline>''"
    by (simp only: e1 e2 if_True)
  have "normalize_newlines (normalize_newlines ''\<newline>\<newline>'') =
      (if blank_last_line ''\<newline>\<newline>'' then butlast (normalize_newlines ''\<newline>\<newline>'')
       else normalize_newlines ''\<newline>\<newline>'')"
    by (rule conjunct2 [OF conjunct2 [OF normalize_newlines_twice]])
  then have b: "normalize_newlines (normalize_newlines ''\<newline>\<newline>'') = normalize_newlines ''\<newline>\<newline>''"
    by (simp only: e3 if_False)
  have c: "butlast ''a\<newline>'' = ''a''" by simp
  show ?thesis
    by (intro conjI) (rule e1, rule e2, simp only: a c, rule e3, rule b)
qed

text \<open>
  The claim as stated fails: normalising \<open>"a\n\n"\<close> gives \<open>"a\n"\<close>, and
  normalising that gives \<open>"a"\<close>.
\<close>

theorem normalize_newlines_not_idempotent:
  "normalize_newlines (normalize_newlines [CHR ''a'', LF, LF]) \<noteq> normalize_newlines [CHR ''a'', LF, LF]"
  by code_simp

subsection \<open>The packing step\<close>

lemma split_loop_groups:
  "split_loop ps m cur n = map (join para_sep) (group_loop ps m cur n)"
  by (induction ps arbitrary: cur n) (simp_all add: Let_def)

lemma chunks_are_joined_groups:
  "split_paragraphs_into_chunks ps m = map (join para_sep) (chunk_groups ps m)"
  by (simp add: split_paragraphs_into_chunks_def chunk_groups_def split_loop_groups)

lemma concat_group_loop: "concat (group_loop ps m cur n) = cur @ ps"
  by (induction ps arbitrary: cur n) (simp_all add: Let_def)

lemma concat_chunk_groups: "concat (chunk_groups ps m) = ps"
  by (simp add: chunk_groups_def concat_group_loop)

lemma group_loop_nonempty: "g \<in> set (group_loop ps m cur n) \<Longrightarrow> g \<noteq> []"
  by (induction ps arbitrary: cur n) (auto simp: Let_def split: if_splits)

lemma length_join_snoc:
  "cur \<noteq> [] \<Longrightarrow> length (join sep (cur @ [p])) = length (join sep cur) + length sep + length p"
  by (induction sep cur rule: join.induct) simp_all

lemma pack_inv_chunk_ok: "pack_inv m cur n \<Longrightarrow> cur \<noteq> [] \<Longrightarrow> chunk_ok m cur"
  unfolding pack_inv_def chunk_ok_def
  by (cases cur) (auto simp: length_Suc_conv)

lemma pack_inv_reset: "pack_inv m [p] (int (length p))"
  by (simp add: pack_inv_def)

lemma pack_inv_first: "pack_inv m ([] @ [p]) (n + int (length p) + 2)" if "0 \<le> n"
  using that by (simp add: pack_inv_def)

lemma pack_inv_append:
  assumes "pack_inv m cur n" "cur \<noteq> []" "\<not> n + int (length p) + 2 > m"
  shows "pack_inv m (cur @ [p]) (n + int (length p) + 2)"
  using assms by (auto simp: pack_inv_def length_join_snoc para_sep_def)

lemma group_loop_ok:
  "pack_inv m cur n \<Longrightarrow> 0 \<le> n \<Longrightarrow> g \<in> set (group_loop ps m cur n) \<Longrightarrow> chunk_ok m g"
proof (induction ps arbitrary: cur n)
  case Nil
  then show ?case by (auto dest: pack_inv_chunk_ok split: if_splits)
next
  case (Cons p ps)
  show ?case
  proof (cases "cur \<noteq> [] \<and> n + int (length p) + 2 > m")
    case True
    with Cons.prems have "g = cur \<or> g \<in> set (group_loop ps m [p] (int (length p)))"
      by (simp add: Let_def)
    then show ?thesis
    proof
      assume "g = cur"
      with True Cons.prems(1) show ?thesis by (simp add: pack_inv_chunk_ok)
    next
      assume "g \<in> set (group_loop ps m [p] (int (length p)))"
      then show ?thesis using Cons.IH [OF pack_inv_reset] by simp
    qed
  next
    case False
    with Cons.prems have mem: "g \<in> set (group_loop ps m (cur @ [p]) (n + int (length p) + 2))"
      by (simp add: Let_def)
    have "pack_inv m (cur @ [p]) (n + int (length p) + 2)"
    proof (cases "cur = []")
      case True
      then show ?thesis using pack_inv_first [OF Cons.prems(2)] by simp
    next
      case nonempty: False
      with False have "\<not> n + int (length p) + 2 > m" by simp
      with Cons.prems(1) nonempty show ?thesis by (rule pack_inv_append)
    qed
    moreover have "0 \<le> n + int (length p) + 2" using Cons.prems(2) by simp
    ultimately show ?thesis using Cons.IH mem by blast
  qed
qed

text \<open>
  C5. Every chunk of the greedy packing is the blank-line join of a non-empty group of
  consecutive paragraphs; its text is at most \<open>max_chars\<close> long, or the group is one
  single paragraph that is itself longer than \<open>max_chars\<close>.
\<close>

theorem split_paragraphs_into_chunks_budget:
  assumes "0 < max_chars"
  shows "split_paragraphs_into_chunks ps max_chars = map (join para_sep) (chunk_groups ps max_chars)
    \<and> concat (chunk_groups ps max_chars) = ps
    \<and> (\<forall>g \<in> set (chunk_groups ps max_chars).
          g \<noteq> [] \<and> (int (length (join para_sep g)) \<le> max_chars \<or>
            (\<exists>p. g = [p] \<and> max_chars < int (length p))))"
proof -
  have "pack_inv max_chars [] 0" by (simp add: pack_inv_def)
  then have "\<forall>g \<in> set (chunk_groups ps max_chars). chunk_ok max_chars g"
    unfolding chunk_groups_def using group_loop_ok by force
  then show ?thesis
    by (simp add: chunks_are_joined_groups concat_chunk_groups chunk_ok_def)
qed

theorem split_paragraphs_into_chunks_budget_witness:
  "(0::int) < 5
   \<and> split_paragraphs_into_chunks [''ab'', ''c'', ''defghij'', ''k''] 5 = [''ab'', ''c'', ''defghij'', ''k'']
   \<and> chunk_groups [''ab'', ''c'', ''defghij'', ''k''] 5 = [[''ab''], [''c''], [''defghij''], [''k'']]"
  using split_paragraphs_into_chunks_budget [of 5 "[''ab'', ''c'', ''defghij'', ''k'']"]
  by (simp add: chunk_groups_def split_paragraphs_into_chunks_def para_sep_def LF_def)

subsection \<open>The content of the chunks\<close>

lemma nonspace_simps [simp]:
  "nonspace [] = []"
  "nonspace (c # cs) = (if isspace c then nonspace cs else c # nonspace cs)"
  "nonspace (xs @ ys) = nonspace xs @ nonspace ys"
  "nonspace (rev xs) = rev (nonspace xs)"
  by (simp_all add: nonspace_def rev_filter)

lemma isspace_LF [simp]: "isspace LF"
  by (simp add: isspace_def LF_def)

lemma linebreak_isspace: "is_linebreak c \<Longrightarrow> isspace c"
  by (auto simp: is_linebreak_def isspace_def)

lemma nonspace_dropWhile: "nonspace (dropWhile isspace s) = nonspace s"
  by (induction s) simp_all

lemma nonspace_strip [simp]: "nonspace (strip s) = nonspace s"
  by (simp add: strip_def lstrip_def rstrip_def nonspace_dropWhile)

lemma nonspace_concat: "nonspace (concat xs) = concat (map nonspace xs)"
  by (induction xs) simp_all

lemma nonspace_join:
  "nonspace sep = [] \<Longrightarrow> nonspace (join sep xs) = concat (map nonspace xs)"
  by (induction sep xs rule: join.induct) simp_all

lemma nonspace_para_sep [simp]: "nonspace para_sep = []" "nonspace [LF] = []"
  by (simp_all add: para_sep_def)

lemma split_blank_not_Nil [simp]: "split_blank s \<noteq> []"
  by (induction s rule: split_blank.induct) (auto split: list.splits)

lemma nonspace_split_blank: "concat (map nonspace (split_blank s)) = nonspace s"
  by (induction s rule: split_blank.induct) (auto split: list.splits)

lemma nonspace_paragraphs_of: "concat (map nonspace (paragraphs_of s)) = nonspace s"
proof -
  have "concat (map nonspace (filter (\<lambda>p. p \<noteq> []) ps)) = concat (map nonspace ps)" for ps
    by (induction ps) simp_all
  then have "concat (map nonspace (paragraphs_of s)) = concat (map nonspace (map strip (split_blank s)))"
    by (simp add: paragraphs_of_def)
  also have "\<dots> = concat (map nonspace (split_blank s))"
    by (simp add: comp_def)
  finally show ?thesis by (simp add: nonspace_split_blank)
qed

lemma nonspace_chunks:
  "nonspace (concat (split_paragraphs_into_chunks ps m)) = concat (map nonspace ps)"
proof -
  have "nonspace (concat (map (join para_sep) gs)) = concat (map nonspace (concat gs))" for gs
    by (induction gs) (simp_all add: nonspace_join)
  then show ?thesis
    by (simp add: chunks_are_joined_groups concat_chunk_groups)
qed

lemma map_snd_Pair [simp]: "map snd (map (Pair t) xs) = xs"
  by (induction xs) simp_all

lemma nonspace_flush_section:
  "nonspace (concat (map snd (flush_section t cur m))) = nonspace (concat cur)"
proof -
  let ?s = "strip (join [LF] cur)"
  have s: "nonspace ?s = nonspace (concat cur)"
    by (simp add: nonspace_join nonspace_concat)
  show ?thesis
  proof (cases "?s = []")
    case True
    with s show ?thesis by (simp add: flush_section_def)
  next
    case False
    then show ?thesis
      using s by (simp add: flush_section_def nonspace_chunks nonspace_paragraphs_of o_def)
  qed
qed

lemma nonspace_splitlines: "nonspace (concat (splitlines s)) = nonspace s"
proof (induction s rule: splitlines.induct)
  case 1
  then show ?case by simp
next
  case (2 c cs)
  show ?case
  proof (cases "c = CR \<and> cs \<noteq> [] \<and> hd cs = LF")
    case True
    then obtain cs' where cs: "cs = LF # cs'" by (cases cs) auto
    from True 2 have "nonspace (concat (splitlines (tl cs))) = nonspace (tl cs)" by simp
    with True cs show ?thesis by (simp add: linebreak_isspace)
  next
    case nocrlf: False
    show ?thesis
    proof (cases "is_linebreak c")
      case True
      with nocrlf 2 show ?thesis by (auto simp: linebreak_isspace)
    next
      case False
      with nocrlf 2 have IH: "nonspace (concat (splitlines cs)) = nonspace cs" by simp
      from nocrlf False show ?thesis
        using IH by (cases "splitlines cs") auto
    qed
  qed
qed


lemma nonspace_eq_Nil_iff: "nonspace s = [] \<longleftrightarrow> (\<forall>c \<in> set s. isspace c)"
  by (simp add: nonspace_def filter_empty_conv)

lemma strip_eq_Nil_iff: "strip s = [] \<longleftrightarrow> nonspace s = []"
proof
  assume "strip s = []"
  then have "nonspace (strip s) = []" by simp
  then show "nonspace s = []" by simp
next
  assume "nonspace s = []"
  then have "\<forall>c \<in> set s. isspace c" by (simp add: nonspace_eq_Nil_iff)
  then have d: "dropWhile isspace s = []" by (meson dropWhile_eq_Nil_conv)
  show "strip s = []" unfolding strip_def lstrip_def rstrip_def d by simp
qed

lemma roman_header_title_nonempty:
  assumes "roman_header s = Some t"
  shows "t \<noteq> []"
proof -
  from assms obtain r where t: "t = strip (dropWhile isspace r)"
    and r: "dropWhile isspace r \<noteq> []"
    by (simp add: roman_header_def Let_def split: if_splits list.splits) blast
  from r have "\<not> (\<forall>c \<in> set r. isspace c)" by (meson dropWhile_eq_Nil_conv)
  then have "nonspace r \<noteq> []" by (simp add: nonspace_eq_Nil_iff)
  then have "nonspace t \<noteq> []" by (simp add: t nonspace_dropWhile)
  then show ?thesis by auto
qed

lemma blank_lines_nonspace: "\<forall>l \<in> set ls. strip l = [] \<Longrightarrow> nonspace (concat ls) = []"
  by (induction ls) (simp_all add: strip_eq_Nil_iff)

lemma section_loop_content:
  "loop_ok title cur lines \<Longrightarrow>
   nonspace (concat (map snd (section_loop lines title cur m bt)))
     = nonspace (concat cur) @ nonspace (concat (filter (\<lambda>l. \<not> is_header l) lines))"
proof (induction lines arbitrary: title cur)
  case Nil
  then show ?case by (simp add: nonspace_flush_section)
next
  case (Cons line lines)
  show ?case
  proof (cases "roman_header (strip line)")
    case None
    then have nh: "\<not> is_header line" by (simp add: is_header_def)
    with Cons.prems have "loop_ok title (cur @ [line]) lines"
      by (auto simp: loop_ok_def no_header_def blank_preamble_def)
    from Cons.IH [OF this] None nh show ?thesis by simp
  next
    case (Some t)
    then have h: "is_header line" by (simp add: is_header_def)
    from Some have "t \<noteq> []" by (rule roman_header_title_nonempty)
    then have "loop_ok (Some t) [] lines" by (simp add: loop_ok_def)
    from Cons.IH [OF this]
    have rest: "nonspace (concat (map snd (section_loop lines (Some t) [] m bt)))
        = nonspace (concat (filter (\<lambda>l. \<not> is_header l) lines))"
      by simp
    have first: "nonspace (concat (map snd
        (case title of None \<Rightarrow> []
         | Some t' \<Rightarrow> if t' \<noteq> [] \<and> cur \<noteq> [] then flush_section t' cur m else [])))
        = nonspace (concat cur)"
    proof (cases "truthy title")
      case True
      then obtain t' where "title = Some t'" "t' \<noteq> []" by (cases title) auto
      then show ?thesis by (simp add: nonspace_flush_section)
    next
      case False
      with Cons.prems h have "\<forall>l \<in> set cur. strip l = []"
        by (auto simp: loop_ok_def no_header_def)
      then have "nonspace (concat cur) = []" by (rule blank_lines_nonspace)
      with False show ?thesis by (cases title) auto
    qed
    from Some h first rest show ?thesis by simp
  qed
qed

lemma join_append:
  "xs \<noteq> [] \<Longrightarrow> ys \<noteq> [] \<Longrightarrow> join sep (xs @ ys) = join sep xs @ sep @ join sep ys"
  by (induction sep xs rule: join.induct) (auto simp: neq_Nil_conv)

lemma join_groups:
  "\<forall>g \<in> set gs. g \<noteq> [] \<Longrightarrow> join sep (map (join sep) gs) = join sep (concat gs)"
proof (induction gs)
  case Nil
  then show ?case by simp
next
  case (Cons g gs)
  show ?case
  proof (cases gs)
    case Nil
    then show ?thesis by simp
  next
    case (Cons g' gs')
    with Cons.prems have "concat gs \<noteq> []" "g \<noteq> []" by auto
    with Cons.IH Cons.prems Cons show ?thesis by (simp add: join_append)
  qed
qed

lemma chunk_groups_nonempty: "\<forall>g \<in> set (chunk_groups ps m). g \<noteq> []"
  by (auto simp: chunk_groups_def dest: group_loop_nonempty)

lemma join_chunks:
  "join para_sep (split_paragraphs_into_chunks ps m) = join para_sep ps"
  by (simp add: chunks_are_joined_groups join_groups chunk_groups_nonempty concat_chunk_groups)

lemma paragraphs_of_eq: "paragraphs_of s = stripped_paragraphs s"
  by (simp add: paragraphs_of_def stripped_paragraphs_def)

lemma section_paragraphs_code: "section_paragraphs body = paragraphs_of (strip (join [LF] body))"
  by (simp add: section_paragraphs_def paragraphs_of_eq)

lemma paragraphs_of_Nil [simp]: "paragraphs_of [] = []"
  by (simp add: paragraphs_of_def)

lemma split_chunks_Nil [simp]: "split_paragraphs_into_chunks [] m = []"
  by (simp add: split_paragraphs_into_chunks_def)

lemma flush_section_eq:
  "flush_section t body m
     = map (Pair t) (split_paragraphs_into_chunks (section_paragraphs body) m)"
  by (simp add: flush_section_def section_paragraphs_code Let_def)

lemma blank_section_paragraphs:
  assumes "\<forall>l \<in> set body. strip l = []"
  shows "section_paragraphs body = []"
proof -
  from assms have "nonspace (concat body) = []" by (rule blank_lines_nonspace)
  then have "nonspace (join [LF] body) = []" by (simp add: nonspace_join nonspace_concat)
  then have "strip (join [LF] body) = []" by (simp add: strip_eq_Nil_iff)
  then show ?thesis by (simp add: section_paragraphs_code)
qed

lemma sections_from_hd: "\<exists>body rest. sections_from title lines = (title, body) # rest"
proof (induction lines arbitrary: title)
  case Nil
  then show ?case by simp
next
  case (Cons line lines)
  from Cons.IH [of title] obtain body rest where
    "sections_from title lines = (title, body) # rest" by blast
  then show ?case by (cases "roman_header (strip line)") simp_all
qed

lemma sections_from_bodies:
  "concat (map snd (sections_from title lines)) = filter (\<lambda>l. \<not> is_header l) lines"
proof (induction lines arbitrary: title)
  case Nil
  then show ?case by simp
next
  case (Cons line lines)
  show ?case
  proof (cases "roman_header (strip line)")
    case None
    from sections_from_hd [of title lines] obtain body rest where
      s: "sections_from title lines = (title, body) # rest" by blast
    from Cons.IH [of title] s have "body @ concat (map snd rest) = filter (\<lambda>l. \<not> is_header l) lines"
      by simp
    with None s show ?thesis by (simp add: is_header_def)
  next
    case (Some t)
    with Cons.IH [of "Some t"] show ?thesis by (simp add: is_header_def)
  qed
qed

lemma section_loop_sections:
  "loop_ok title cur lines \<Longrightarrow> sections_from title lines = (title, body) # rest \<Longrightarrow>
   section_loop lines title cur m bt
     = section_chunks bt m (title, cur @ body) @ concat (map (section_chunks bt m) rest)"
proof (induction lines arbitrary: title cur body rest)
  case Nil
  then show ?case
    by (cases title) (auto simp: section_chunks_def flush_section_eq section_paragraphs_code)
next
  case (Cons line lines)
  show ?case
  proof (cases "roman_header (strip line)")
    case None
    then have nh: "\<not> is_header line" by (simp add: is_header_def)
    from sections_from_hd [of title lines] obtain b0 r0 where
      s0: "sections_from title lines = (title, b0) # r0" by blast
    with None Cons.prems(2) have body: "body = line # b0" and rest: "rest = r0" by simp_all
    from nh Cons.prems(1) have "loop_ok title (cur @ [line]) lines"
      by (auto simp: loop_ok_def no_header_def blank_preamble_def)
    from Cons.IH [OF this s0] None body rest show ?thesis by simp
  next
    case (Some t)
    then have h: "is_header line" by (simp add: is_header_def)
    from Some have tne: "t \<noteq> []" by (rule roman_header_title_nonempty)
    from Some Cons.prems(2) have body: "body = []" and rest: "rest = sections_from (Some t) lines"
      by simp_all
    from sections_from_hd [of "Some t" lines] obtain b1 r1 where
      s1: "sections_from (Some t) lines = (Some t, b1) # r1" by blast
    from tne have "loop_ok (Some t) [] lines" by (simp add: loop_ok_def)
    from Cons.IH [OF this s1]
    have later: "section_loop lines (Some t) [] m bt = concat (map (section_chunks bt m) rest)"
      by (simp add: rest s1)
    have first: "(case title of None \<Rightarrow> []
         | Some t' \<Rightarrow> if t' \<noteq> [] \<and> cur \<noteq> [] then flush_section t' cur m else [])
        = section_chunks bt m (title, cur)"
    proof (cases "truthy title")
      case True
      then obtain t' where "title = Some t'" "t' \<noteq> []" by (cases title) auto
      then show ?thesis
        by (auto simp: section_chunks_def flush_section_eq section_paragraphs_code)
    next
      case False
      with Cons.prems(1) h have "\<forall>l \<in> set cur. strip l = []"
        by (auto simp: loop_ok_def no_header_def)
      then have "section_paragraphs cur = []" by (rule blank_section_paragraphs)
      with False show ?thesis by (cases title) (auto simp: section_chunks_def)
    qed
    from Some first later body show ?thesis by simp
  qed
qed

lemma join_section_chunks:
  "join para_sep (map snd (concat (map (section_chunks bt m) secs)))
     = join para_sep (concat (map (\<lambda>sec. section_paragraphs (snd sec)) secs))"
proof -
  have "map snd (concat (map (section_chunks bt m) secs))
      = map (join para_sep)
          (concat (map (\<lambda>sec. chunk_groups (section_paragraphs (snd sec)) m) secs))"
    by (induction secs) (simp_all add: section_chunks_def chunks_are_joined_groups o_def)
  moreover have "\<forall>g \<in> set (concat (map (\<lambda>sec. chunk_groups (section_paragraphs (snd sec)) m) secs)).
      g \<noteq> []"
    using chunk_groups_nonempty by auto
  moreover have "concat (concat (map (\<lambda>sec. chunk_groups (section_paragraphs (snd sec)) m) secs))
      = concat (map (\<lambda>sec. section_paragraphs (snd sec)) secs)"
    by (induction secs) (simp_all add: concat_chunk_groups)
  ultimately show ?thesis by (simp add: join_groups)
qed

text \<open>
  C2 (as amended). For every document that is not multi-section, and every multi-section
  document with no header line or with only blank lines before its first header:
  \<^item> a document that is not multi-section: the chunk texts joined by blank lines are
    exactly the stripped non-empty paragraphs of the normalised text joined by blank
    lines;
  \<^item> a multi-section document: the non-header lines of the normalised text, in order,
    are the bodies of its sections; the chunks are, section after section, the packed
    stripped non-empty paragraphs of the section body under the section's title; and the
    chunk texts joined by blank lines are exactly those paragraphs joined by blank lines;
  \<^item> in both cases the non-whitespace characters of the chunk texts, in emission order,
    are exactly those of the normalised text without its header lines.
\<close>

theorem iter_section_chunks_content:
  assumes "filename \<in> set MULTI_SECTION_FILES \<Longrightarrow>
             no_header (splitlines (normalize_newlines text))
           \<or> blank_preamble (splitlines (normalize_newlines text))"
  shows "nonspace (concat (map snd (iter_section_chunks text filename max_chars)))
           = nonspace (concat (kept_lines filename (splitlines (normalize_newlines text))))
       \<and> (filename \<notin> set MULTI_SECTION_FILES \<longrightarrow>
            join para_sep (map snd (iter_section_chunks text filename max_chars))
              = join para_sep (stripped_paragraphs (normalize_newlines text)))
       \<and> (filename \<in> set MULTI_SECTION_FILES \<longrightarrow>
            iter_section_chunks text filename max_chars
              = concat (map (section_chunks (base_title_of filename) max_chars)
                  (sections_of (splitlines (normalize_newlines text))))
          \<and> join para_sep (map snd (iter_section_chunks text filename max_chars))
              = join para_sep (concat (map (\<lambda>sec. section_paragraphs (snd sec))
                  (sections_of (splitlines (normalize_newlines text)))))
          \<and> concat (map snd (sections_of (splitlines (normalize_newlines text))))
              = filter (\<lambda>l. \<not> is_header l) (splitlines (normalize_newlines text)))"
proof (cases "filename \<in> set MULTI_SECTION_FILES")
  case True
  let ?L = "splitlines (normalize_newlines text)"
  from assms [OF True] have ok: "loop_ok None [] ?L" by (auto simp: loop_ok_def)
  from sections_from_hd [of None ?L] obtain body rest where
    s: "sections_from None ?L = (None, body) # rest" by blast
  have chunks: "iter_section_chunks text filename max_chars
      = concat (map (section_chunks (base_title_of filename) max_chars) (sections_of ?L))"
    using section_loop_sections [OF ok s] True s
    by (simp add: iter_section_chunks_def Let_def sections_of_def)
  have joined: "join para_sep (map snd (iter_section_chunks text filename max_chars))
      = join para_sep (concat (map (\<lambda>sec. section_paragraphs (snd sec)) (sections_of ?L)))"
    unfolding chunks by (rule join_section_chunks)
  have bodies: "concat (map snd (sections_of ?L)) = filter (\<lambda>l. \<not> is_header l) ?L"
    unfolding sections_of_def by (rule sections_from_bodies)
  have content: "nonspace (concat (map snd (iter_section_chunks text filename max_chars)))
      = nonspace (concat (kept_lines filename ?L))"
    using section_loop_content [OF ok] True
    by (simp add: iter_section_chunks_def kept_lines_def Let_def)
  from True chunks joined bodies content show ?thesis by simp
next
  case False
  have "nonspace (concat (split_paragraphs_into_chunks (paragraphs_of (normalize_newlines text)) max_chars))
      = nonspace (concat (splitlines (normalize_newlines text)))"
    by (simp add: nonspace_chunks nonspace_paragraphs_of nonspace_splitlines)
  with False show ?thesis
    by (simp add: iter_section_chunks_def kept_lines_def Let_def o_def join_chunks
        paragraphs_of_eq [symmetric])
qed


theorem iter_section_chunks_content_witness:
  "''living_on_campus.txt'' \<in> set MULTI_SECTION_FILES
   \<and> blank_preamble (splitlines (normalize_newlines
        ''\<newline>I. Scope\<newline> Body  text \<newline>\<newline>\<newline>More\<newline>II. Other\<newline>X''))
   \<and> iter_section_chunks
        ''\<newline>I. Scope\<newline> Body  text \<newline>\<newline>\<newline>More\<newline>II. Other\<newline>X''
        ''living_on_campus.txt'' 12
      = [(''Scope'', ''Body  text''), (''Scope'', ''More''), (''Other'', ''X'')]
   \<and> concat (map (section_chunks (base_title_of ''living_on_campus.txt'') 12)
        (sections_of (splitlines (normalize_newlines
          ''\<newline>I. Scope\<newline> Body  text \<newline>\<newline>\<newline>More\<newline>II. Other\<newline>X''))))
      = [(''Scope'', ''Body  text''), (''Scope'', ''More''), (''Other'', ''X'')]"
proof -
  let ?T = "''\<newline>I. Scope\<newline> Body  text \<newline>\<newline>\<newline>More\<newline>II. Other\<newline>X''"
  let ?F = "''living_on_campus.txt''"
  have m: "?F \<in> set MULTI_SECTION_FILES" by code_simp
  have h: "blank_preamble (splitlines (normalize_newlines ?T))" by code_simp
  have c: "iter_section_chunks ?T ?F 12
      = [(''Scope'', ''Body  text''), (''Scope'', ''More''), (''Other'', ''X'')]"
    by code_simp
  have "iter_section_chunks ?T ?F 12
      = concat (map (section_chunks (base_title_of ?F) 12)
          (sections_of (splitlines (normalize_newlines ?T))))"
    using iter_section_chunks_content [of ?F ?T 12] h m by blast
  with c have "concat (map (section_chunks (base_title_of ?F) 12)
          (sections_of (splitlines (normalize_newlines ?T))))
      = [(''Scope'', ''Body  text''), (''Scope'', ''More''), (''Other'', ''X'')]"
    by simp
  with m h c show ?thesis by (intro conjI)
qed

text \<open>
  The claim as stated fails: the whitespace at the ends of a paragraph is stripped, so
  neither the blank-line join nor the plain concatenation of the chunks of
  \<open>" a\n\nb"\<close> gives back the normalised text.
\<close>

theorem chunks_lose_edge_whitespace:
  "normalize_newlines (join para_sep (map snd
      (iter_section_chunks '' a\<newline>\<newline>b'' ''visitation_policy.txt'' 3000)))
     \<noteq> normalize_newlines '' a\<newline>\<newline>b''
   \<and> concat (map snd (iter_section_chunks '' a\<newline>\<newline>b'' ''visitation_policy.txt'' 3000))
     \<noteq> normalize_newlines '' a\<newline>\<newline>b''"
  by code_simp

text \<open>
  C1. The text before the first header of a multi-section document is to be emitted under
  the fallback title. The line loop flushes at a header only when \<open>current_title\<close> is
  set, so that text is dropped: the document below yields the one chunk of section
  \<open>Scope\<close> and nothing for \<open>Preface text\<close>.
\<close>

theorem iter_section_chunks_drops_preamble:
  "iter_section_chunks ''Preface text\<newline>I. Scope\<newline>Body text''
     ''student_conduct_code.txt'' 3000 = [(''Scope'', ''Body text'')]"
  by code_simp

subsection \<open>Retrieval and the answer gate\<close>

lemma enumerated_sort_is_argsort:
  assumes "mset es = mset (zip xs [0..<length xs])"
  shows "mset (map snd (sort_key fst es)) = mset [0..<length xs]"
    and "sorted (map (\<lambda>i. xs ! i) (map snd (sort_key fst es)))"
proof -
  have unzip: "map snd (zip xs [0..<length xs]) = [0..<length xs]"
    by (simp add: map_snd_zip)
  have "mset (map snd (sort_key fst es)) = mset (map snd es)" by simp
  also have "\<dots> = mset (map snd (zip xs [0..<length xs]))"
    using assms by (metis mset_map)
  finally show "mset (map snd (sort_key fst es)) = mset [0..<length xs]"
    by (simp only: unzip)
  have "set (sort_key fst es) = set (zip xs [0..<length xs])"
    using assms by (metis mset_eq_setD set_sort)
  then have "\<forall>p \<in> set (sort_key fst es). xs ! snd p = fst p"
    by (auto simp: set_zip)
  then have eq: "map (\<lambda>i. xs ! i) (map snd (sort_key fst es)) = map fst (sort_key fst es)"
    by simp
  show "sorted (map (\<lambda>i. xs ! i) (map snd (sort_key fst es)))"
    unfolding eq by (rule sorted_sort_key)
qed

lemma np_argsort_stable: "np_argsort argsort_stable"
  unfolding np_argsort_def argsort_stable_def
proof (intro allI conjI)
  fix xs :: "real list"
  show "mset (map snd (sort_key fst (zip xs [0..<length xs]))) = mset [0..<length xs]"
    by (rule enumerated_sort_is_argsort(1) [OF refl])
  show "sorted (map (\<lambda>i. xs ! i) (map snd (sort_key fst (zip xs [0..<length xs]))))"
    by (rule enumerated_sort_is_argsort(2) [OF refl])
qed

lemma np_argsort_ties_last: "np_argsort argsort_ties_last"
  unfolding np_argsort_def argsort_ties_last_def
proof (intro allI conjI)
  fix xs :: "real list"
  have m: "mset (rev (zip xs [0..<length xs])) = mset (zip xs [0..<length xs])"
    by simp
  show "mset (map snd (sort_key fst (rev (zip xs [0..<length xs])))) = mset [0..<length xs]"
    by (rule enumerated_sort_is_argsort(1) [OF m])
  show "sorted (map (\<lambda>i. xs ! i) (map snd (sort_key fst (rev (zip xs [0..<length xs])))))"
    by (rule enumerated_sort_is_argsort(2) [OF m])
qed

lemma np_argsort_perm:
  assumes "np_argsort argsort"
  shows "length (argsort xs) = length xs" "distinct (argsort xs)"
    "set (argsort xs) = {..<length xs}" "sorted (map (\<lambda>i. xs ! i) (argsort xs))"
proof -
  from assms have "\<forall>xs. mset (argsort xs) = mset [0..<length xs]
      \<and> sorted (map (\<lambda>i. xs ! i) (argsort xs))"
    unfolding np_argsort_def .
  then have c: "mset (argsort xs) = mset [0..<length xs]
      \<and> sorted (map (\<lambda>i. xs ! i) (argsort xs))"
    by (rule spec)
  from c have m: "mset (argsort xs) = mset [0..<length xs]" by (rule conjunct1)
  from c have s: "sorted (map (\<lambda>i. xs ! i) (argsort xs))" by (rule conjunct2)
  from m have "length (argsort xs) = length [0..<length xs]" by (rule mset_eq_length)
  then show "length (argsort xs) = length xs" by simp
  from m have "distinct (argsort xs) = distinct [0..<length xs]"
    by (rule mset_eq_imp_distinct_iff)
  then show "distinct (argsort xs)" by simp
  from m have "set (argsort xs) = set [0..<length xs]" by (rule mset_eq_setD)
  then show "set (argsort xs) = {..<length xs}" by (simp add: atLeast0LessThan)
  from s show "sorted (map (\<lambda>i. xs ! i) (argsort xs))" .
qed

lemma np_argsort_Nil: "np_argsort argsort \<Longrightarrow> argsort [] = []"
  using np_argsort_perm(1) [of argsort "[]"] by simp

text \<open>
  What the top-k selection guarantees for every \<open>argsort\<close> that meets NumPy's contract:
  it returns \<open>min k n\<close> distinct row indices, in descending order of similarity, and no
  row left out has a higher similarity than a selected one. The order of rows of equal
  similarity is the one \<open>argsort\<close> returns.
\<close>

lemma top_k_indices_descending:
  assumes "np_argsort argsort"
  shows "length (top_k_indices argsort k sims) = min k (length sims)
       \<and> distinct (top_k_indices argsort k sims)
       \<and> set (top_k_indices argsort k sims) \<subseteq> {..<length sims}
       \<and> sorted (rev (map (\<lambda>i. sims ! i) (top_k_indices argsort k sims)))
       \<and> (\<forall>i \<in> set (top_k_indices argsort k sims). \<forall>j < length sims.
             j \<notin> set (top_k_indices argsort k sims) \<longrightarrow> sims ! j \<le> sims ! i)"
proof -
  let ?neg = "map uminus sims"
  let ?p = "argsort ?neg"
  let ?top = "take k ?p"
  have len: "length ?p = length sims" and dist: "distinct ?p"
    and set_p: "set ?p = {..<length sims}"
    and srt: "sorted (map (\<lambda>i. ?neg ! i) ?p)"
    using np_argsort_perm [OF assms, of ?neg] by simp_all
  have in_range: "\<forall>i \<in> set ?p. i < length sims" using set_p by auto
  then have neg_eq: "map (\<lambda>i. ?neg ! i) ?p = map (\<lambda>i. - (sims ! i)) ?p" by simp
  have srt': "sorted (map (\<lambda>i. - (sims ! i)) ?p)" using srt neg_eq by simp
  have 1: "length ?top = min k (length sims)" using len by simp
  have 2: "distinct ?top" using dist by simp
  have 3: "set ?top \<subseteq> {..<length sims}" using set_p set_take_subset by fastforce
  have "sorted (map (\<lambda>i. - (sims ! i)) ?top)"
    using srt' by (simp add: take_map [symmetric] sorted_wrt_take)
  then have "sorted (map uminus (map (\<lambda>i. sims ! i) ?top))" by (simp add: o_def)
  then have 4: "sorted (rev (map (\<lambda>i. sims ! i) ?top))"
    by (simp add: sorted_wrt_map sorted_wrt_rev)
  have 5: "\<forall>i \<in> set ?top. \<forall>j < length sims. j \<notin> set ?top \<longrightarrow> sims ! j \<le> sims ! i"
  proof (intro ballI allI impI)
    fix i j
    assume i: "i \<in> set ?top" and j: "j < length sims" and nj: "j \<notin> set ?top"
    from j set_p have "j \<in> set ?p" by auto
    with nj have jd: "j \<in> set (drop k ?p)"
      by (metis Un_iff append_take_drop_id set_append)
    have "map (\<lambda>i. - (sims ! i)) ?p
        = map (\<lambda>i. - (sims ! i)) (take k ?p) @ map (\<lambda>i. - (sims ! i)) (drop k ?p)"
      by (metis append_take_drop_id map_append)
    with srt' have "sorted (map (\<lambda>i. - (sims ! i)) (take k ?p) @ map (\<lambda>i. - (sims ! i)) (drop k ?p))"
      by simp
    then have "\<forall>x \<in> set (map (\<lambda>i. - (sims ! i)) (take k ?p)).
        \<forall>y \<in> set (map (\<lambda>i. - (sims ! i)) (drop k ?p)). x \<le> y"
      unfolding sorted_append by blast
    with i jd have "- (sims ! i) \<le> - (sims ! j)" by simp
    then show "sims ! j \<le> sims ! i" by simp
  qed
  from 1 2 3 4 5 show ?thesis by (simp add: top_k_indices_def)
qed


lemma top_k_indices_descending_example:
  "np_argsort argsort_stable
   \<and> top_k_indices argsort_stable 2 [1 / 2, 9 / 10, 7 / 10, 9 / 10] = [1, 3]
   \<and> sorted (rev (map (\<lambda>i. [1 / 2, 9 / 10, 7 / 10, 9 / 10 :: real] ! i)
         (top_k_indices argsort_stable 2 [1 / 2, 9 / 10, 7 / 10, 9 / 10])))"
proof -
  have e: "top_k_indices argsort_stable 2 [1 / 2, 9 / 10, 7 / 10, 9 / 10] = [1, 3]"
    by (simp add: top_k_indices_def argsort_stable_def upt_rec)
  from top_k_indices_descending [OF np_argsort_stable, of 2 "[1 / 2, 9 / 10, 7 / 10, 9 / 10]"]
  have "sorted (rev (map (\<lambda>i. [1 / 2, 9 / 10, 7 / 10, 9 / 10 :: real] ! i)
         (top_k_indices argsort_stable 2 [1 / 2, 9 / 10, 7 / 10, 9 / 10])))"
    by (rule conjunct1 [OF conjunct2 [OF conjunct2 [OF conjunct2]]])
  with e np_argsort_stable show ?thesis by simp
qed

text \<open>
  NumPy's contract leaves the order of ties open: both \<open>argsort_stable\<close> and
  \<open>argsort_ties_last\<close> meet it, and they order two rows of equal similarity differently.
  Which order the default sort of \<open>np.argsort\<close> returns is not decided by the
  repository's code.
\<close>

lemma argsort_contract_leaves_ties_open:
  "np_argsort argsort_stable \<and> np_argsort argsort_ties_last
   \<and> top_k_indices argsort_stable TOP_K_QUESTIONS [1, 1] = [0, 1]
   \<and> top_k_indices argsort_ties_last TOP_K_QUESTIONS [1, 1] = [1, 0]"
proof -
  have "top_k_indices argsort_stable TOP_K_QUESTIONS [1, 1] = [0, 1]"
    by (simp add: top_k_indices_def argsort_stable_def TOP_K_QUESTIONS_def upt_rec)
  moreover have "top_k_indices argsort_ties_last TOP_K_QUESTIONS [1, 1] = [1, 0]"
    by (simp add: top_k_indices_def argsort_ties_last_def TOP_K_QUESTIONS_def upt_rec)
  ultimately show ?thesis using np_argsort_stable np_argsort_ties_last by simp
qed

text \<open>
  Against a two-dimensional matrix with zero rows the retriever returns the maximum
  similarity 0 and no context chunk, when the embedding call for the query returns a
  vector of the matrix's dimension; an error of that call is passed on, and a vector of
  another dimension makes \<open>mat @ vec\<close> raise.
\<close>

lemma retrieve_zero_rows:
  assumes "np_argsort argsort"
  shows "retrieve_chunks_for_query ollama_embed argsort user_q (Array2 d []) questions chunks_by_id
     = (case ollama_embed EMBED_MODEL user_q of
          Inl e \<Rightarrow> Inl e
        | Inr q_vec \<Rightarrow> if length q_vec \<noteq> d then Inl ValueError else Inr (0, []))"
  using np_argsort_Nil [OF assms]
  by (simp add: retrieve_chunks_for_query_def cosine_sim_matrix_def top_k_indices_def
      split: sum.splits)

lemma retrieve_one_dimensional:
  "retrieve_chunks_for_query ollama_embed argsort user_q (Array1 xs) questions chunks_by_id
     = (case ollama_embed EMBED_MODEL user_q of Inl e \<Rightarrow> Inl e | Inr q_vec \<Rightarrow> Inl AxisError)"
  by (simp add: retrieve_chunks_for_query_def cosine_sim_matrix_def split: sum.splits)

lemma build_embeddings_no_questions: "build_embeddings ollama_embed [] = Inr (Array1 [])"
  by (simp add: build_embeddings_def np_array_def EMBED_NORMALIZED_def)

text \<open>
  C9. An empty index is to give the maximum similarity 0 and no context chunk. For no
  question \<open>build_embeddings\<close> returns \<open>np.array([])\<close>, of shape \<open>(0,)\<close>, which
  \<open>main\<close> of \<open>index.py\<close> saves; on that array \<open>np.linalg.norm(mat, axis=1)\<close> raises
  \<open>AxisError\<close>, so the retriever raises before it reaches the branch that returns 0 for
  an empty selection.
\<close>

theorem retrieve_empty_index_raises:
  "build_embeddings (\<lambda>model text. Inr [1, 2]) [] = Inr (Array1 [])
   \<and> retrieve_chunks_for_query (\<lambda>model text. Inr [1, 2]) argsort_stable
        ''how many absences can I miss'' (Array1 []) [] Map.empty = Inl AxisError"
  by (simp add: build_embeddings_no_questions retrieve_one_dimensional)

text \<open>
  C3. When the maximum similarity is below \<open>MIN_SIMILARITY\<close>, or there is no context
  chunk, \<open>safe_generate_answer\<close> returns exactly the fixed insufficient-context string and
  \<open>answer_query\<close> prints exactly that string (followed by an empty line), and neither
  sends a prompt to the generation backend.
\<close>

theorem confidence_gate:
  assumes "max_sim < MIN_SIMILARITY \<or> context_chunks = []"
  shows "safe_generate_answer ollama_chat user_q max_sim context_chunks = ([], Inr INSUFFICIENT)
     \<and> (retrieve_chunks_for_query ollama_embed argsort user_q emb_matrix questions chunks_by_id
           = Inr (max_sim, context_chunks) \<longrightarrow>
         answer_query ollama_embed argsort ollama_chat user_q emb_matrix questions chunks_by_id
           = ([], INSUFFICIENT @ [LF, LF], None))"
  using assms by (simp add: safe_generate_answer_def answer_query_def)


theorem confidence_gate_witness:
  "(0::real) < MIN_SIMILARITY
   \<and> retrieve_chunks_for_query (\<lambda>model text. Inr [0, 1]) argsort_stable
        ''how many absences can I miss'' (Array2 2 [[1, 0]])
        [\<lparr>question_id = ''chunk_0_q0'', q_chunk_id = ''chunk_0'',
          q_section_title = ''Attendance'',
          question_text = ''How many unexcused absences are allowed?''\<rparr>]
        [''chunk_0'' \<mapsto> \<lparr>chunk_id = ''chunk_0'', section_title = ''Attendance'',
          source_file = ''attendance.txt'', url = [],
          chunk_text = ''Students may have up to 2 unexcused absences''\<rparr>]
      = Inr (0, [\<lparr>chunk_id = ''chunk_0'', section_title = ''Attendance'',
          source_file = ''attendance.txt'', url = [],
          chunk_text = ''Students may have up to 2 unexcused absences''\<rparr>])
   \<and> safe_generate_answer (\<lambda>model prompt. Inr ''generated'') ''how many absences can I miss'' 0
        [\<lparr>chunk_id = ''chunk_0'', section_title = ''Attendance'',
          source_file = ''attendance.txt'', url = [],
          chunk_text = ''Students may have up to 2 unexcused absences''\<rparr>]
      = ([], Inr INSUFFICIENT)
   \<and> answer_query (\<lambda>model text. Inr [0, 1]) argsort_stable (\<lambda>model prompt. Inr ''generated'')
        ''how many absences can I miss'' (Array2 2 [[1, 0]])
        [\<lparr>question_id = ''chunk_0_q0'', q_chunk_id = ''chunk_0'',
          q_section_title = ''Attendance'',
          question_text = ''How many unexcused absences are allowed?''\<rparr>]
        [''chunk_0'' \<mapsto> \<lparr>chunk_id = ''chunk_0'', section_title = ''Attendance'',
          source_file = ''attendance.txt'', url = [],
          chunk_text = ''Students may have up to 2 unexcused absences''\<rparr>]
      = ([], INSUFFICIENT @ [LF, LF], None)"
proof -
  let ?c = "\<lparr>chunk_id = ''chunk_0'', section_title = ''Attendance'',
          source_file = ''attendance.txt'', url = [],
          chunk_text = ''Students may have up to 2 unexcused absences''\<rparr>"
  let ?q = "\<lparr>question_id = ''chunk_0_q0'', q_chunk_id = ''chunk_0'',
          q_section_title = ''Attendance'',
          question_text = ''How many unexcused absences are allowed?''\<rparr>"
  have g: "(0::real) < MIN_SIMILARITY" by (simp add: MIN_SIMILARITY_def)
  have r: "retrieve_chunks_for_query (\<lambda>model text. Inr [0, 1]) argsort_stable
        ''how many absences can I miss'' (Array2 2 [[1, 0]]) [?q] [''chunk_0'' \<mapsto> ?c] = Inr (0, [?c])"
    by (simp add: retrieve_chunks_for_query_def cosine_sim_matrix_def dot_def
        top_k_indices_def argsort_stable_def TOP_K_QUESTIONS_def MAX_CHUNKS_def)
  from confidence_gate [of 0 "[?c]" "\<lambda>model prompt. Inr ''generated''"
      "''how many absences can I miss''" "\<lambda>model text. Inr [0, 1]" argsort_stable
      "Array2 2 [[1, 0]]" "[?q]" "[''chunk_0'' \<mapsto> ?c]"] g r
  show ?thesis by simp
qed

subsection \<open>Questions and the index build\<close>

lemma question_supported_iff:
  "question_supported_by_chunk q excerpt =
     ((\<forall>n \<in> set (findall is_digit q). sublist n excerpt)
      \<and> 2 \<le> card (set (tokenize q) \<inter> set (tokenize excerpt)))"
proof (cases "list_all (\<lambda>n. sublist n excerpt) (findall is_digit q)")
  case True
  then show ?thesis
    unfolding question_supported_by_chunk_def has_basic_overlap_def Let_def
    by (simp only: list_all_iff [symmetric] not_True_eq_False if_False simp_thms split: if_split)
next
  case False
  then show ?thesis
    unfolding question_supported_by_chunk_def has_basic_overlap_def Let_def
    by (simp only: list_all_iff [symmetric] if_True simp_thms)
qed

lemma question_records_fields:
  "r \<in> set (question_records ch i qs) \<Longrightarrow>
   q_chunk_id r = chunk_id ch \<and> q_section_title r = section_title ch \<and> question_text r \<in> set qs"
  by (induction qs arbitrary: i) auto

lemma clean_questions_supported:
  "q \<in> set (clean_questions raw excerpt) \<Longrightarrow> question_supported_by_chunk q excerpt"
  by (auto simp: clean_questions_def)

lemma build_questions_supported:
  "build_questions C chunks = Inr qs \<Longrightarrow>
   \<forall>r \<in> set qs. \<exists>ch \<in> set chunks. q_chunk_id r = chunk_id ch
       \<and> q_section_title r = section_title ch
       \<and> question_supported_by_chunk (question_text r) (chunk_text ch)"
proof (induction chunks arbitrary: qs)
  case Nil
  then show ?case by simp
next
  case (Cons ch chunks)
  from Cons.prems obtain raw rest where
    raw: "generate_questions_for_chunk C (section_title ch) (chunk_text ch) = Inr raw"
    and rest: "build_questions C chunks = Inr rest"
    and qs: "qs = (if clean_questions raw (chunk_text ch) = [] then []
                   else question_records ch 0
                     (take N_QUESTIONS_PER_CHUNK (clean_questions raw (chunk_text ch)))) @ rest"
    by (auto simp: Let_def split: sum.splits)
  show ?case
  proof
    fix r
    assume "r \<in> set qs"
    then consider
      (here) "r \<in> set (question_records ch 0
          (take N_QUESTIONS_PER_CHUNK (clean_questions raw (chunk_text ch))))"
      | (later) "r \<in> set rest"
      using qs by (auto split: if_splits)
    then show "\<exists>ch' \<in> set (ch # chunks). q_chunk_id r = chunk_id ch'
       \<and> q_section_title r = section_title ch'
       \<and> question_supported_by_chunk (question_text r) (chunk_text ch')"
    proof cases
      case here
      from question_records_fields [OF here]
      have f: "q_chunk_id r = chunk_id ch" "q_section_title r = section_title ch"
        and t: "question_text r \<in> set (take N_QUESTIONS_PER_CHUNK (clean_questions raw (chunk_text ch)))"
        by simp_all
      from t have "question_text r \<in> set (clean_questions raw (chunk_text ch))"
        by (rule in_set_takeD)
      then have "question_supported_by_chunk (question_text r) (chunk_text ch)"
        by (rule clean_questions_supported)
      with f show ?thesis by auto
    next
      case later
      with Cons.IH [OF rest] show ?thesis by auto
    qed
  qed
qed

lemma build_questions_total:
  "\<forall>ch \<in> set chunks. \<exists>raw.
      C DOC2QUERY_MODEL (doc2query_prompt (section_title ch) (chunk_text ch)) = Inr raw \<Longrightarrow>
   \<exists>qs. build_questions C chunks = Inr qs"
proof (induction chunks)
  case Nil
  then show ?case by simp
next
  case (Cons ch chunks)
  then obtain raw rest where
    "C DOC2QUERY_MODEL (doc2query_prompt (section_title ch) (chunk_text ch)) = Inr raw"
    "build_questions C chunks = Inr rest"
    by auto
  then show ?case by (simp add: generate_questions_for_chunk_def Let_def)
qed

text \<open>
  C7. The support filter accepts a question exactly when every maximal run of digits of
  the question is a substring of the chunk text and the question shares at least two
  content words with the chunk, the content words of a text being the maximal runs of
  letters of the lowercased text that are not stopwords. Hence every question that
  \<open>build_questions\<close> retains belongs to a chunk of the input whose text contains all the
  question's digit runs and shares two content words with it. \<open>build_questions\<close> returns
  whenever the generation backend answers for every chunk.
\<close>

theorem support_filter:
  "question_supported_by_chunk q excerpt =
     ((\<forall>n \<in> set (findall is_digit q). sublist n excerpt)
      \<and> 2 \<le> card (set (tokenize q) \<inter> set (tokenize excerpt)))
   \<and> tokenize q = filter (\<lambda>t. t \<notin> set STOPWORDS) (findall is_alpha (map to_lower q))
   \<and> (\<forall>qs. build_questions C chunks = Inr qs \<longrightarrow>
         (\<forall>r \<in> set qs. \<exists>ch \<in> set chunks. q_chunk_id r = chunk_id ch
             \<and> (\<forall>n \<in> set (findall is_digit (question_text r)). sublist n (chunk_text ch))
             \<and> 2 \<le> card (set (tokenize (question_text r)) \<inter> set (tokenize (chunk_text ch)))))
   \<and> ((\<forall>ch \<in> set chunks. \<exists>raw.
          C DOC2QUERY_MODEL (doc2query_prompt (section_title ch) (chunk_text ch)) = Inr raw)
        \<longrightarrow> (\<exists>qs. build_questions C chunks = Inr qs))"
proof (intro conjI allI impI)
  show "question_supported_by_chunk q excerpt =
     ((\<forall>n \<in> set (findall is_digit q). sublist n excerpt)
      \<and> 2 \<le> card (set (tokenize q) \<inter> set (tokenize excerpt)))"
    by (rule question_supported_iff)
next
  show "tokenize q = filter (\<lambda>t. t \<notin> set STOPWORDS) (findall is_alpha (map to_lower q))"
    by (simp add: tokenize_def)
next
  fix qs
  assume "build_questions C chunks = Inr qs"
  from build_questions_supported [OF this]
  show "\<forall>r \<in> set qs. \<exists>ch \<in> set chunks. q_chunk_id r = chunk_id ch
             \<and> (\<forall>n \<in> set (findall is_digit (question_text r)). sublist n (chunk_text ch))
             \<and> 2 \<le> card (set (tokenize (question_text r)) \<inter> set (tokenize (chunk_text ch)))"
    unfolding question_supported_iff by blast
next
  assume "\<forall>ch \<in> set chunks. \<exists>raw.
          C DOC2QUERY_MODEL (doc2query_prompt (section_title ch) (chunk_text ch)) = Inr raw"
  then show "\<exists>qs. build_questions C chunks = Inr qs" by (rule build_questions_total)
qed

lemma demo_build_questions: "build_questions demo_chat [demo_chunk] = Inr new_questions"
  by code_simp

lemma demo_support:
  "question_supported_by_chunk ''How many unexcused absences may students have, up to 2?''
     (chunk_text demo_chunk)"
  "\<not> question_supported_by_chunk ''What happens after 7 unexcused absences?''
     (chunk_text demo_chunk)"
  "findall is_digit ''What happens after 7 unexcused absences?'' = [''7'']"
  "findall is_digit ''How many unexcused absences may students have, up to 2?'' = [''2'']"
  by code_simp+


theorem support_filter_witness:
  "build_questions demo_chat [demo_chunk] = Inr new_questions
   \<and> question_supported_by_chunk ''How many unexcused absences may students have, up to 2?''
       (chunk_text demo_chunk)
   \<and> list_all (\<lambda>n. sublist n (chunk_text demo_chunk))
       (findall is_digit ''How many unexcused absences may students have, up to 2?'')
   \<and> \<not> question_supported_by_chunk ''What happens after 7 unexcused absences?''
       (chunk_text demo_chunk)
   \<and> list_all (\<lambda>r. q_chunk_id r = chunk_id demo_chunk
         \<and> list_all (\<lambda>n. sublist n (chunk_text demo_chunk)) (findall is_digit (question_text r)))
       new_questions"
proof -
  let ?Q = "''How many unexcused absences may students have, up to 2?''"
  note t = support_filter [of ?Q "chunk_text demo_chunk" demo_chat "[demo_chunk]"]
  from t have eq: "question_supported_by_chunk ?Q (chunk_text demo_chunk) =
     ((\<forall>n \<in> set (findall is_digit ?Q). sublist n (chunk_text demo_chunk))
      \<and> 2 \<le> card (set (tokenize ?Q) \<inter> set (tokenize (chunk_text demo_chunk))))"
    by (rule conjunct1)
  have "(\<forall>n \<in> set (findall is_digit ?Q). sublist n (chunk_text demo_chunk))
      \<and> 2 \<le> card (set (tokenize ?Q) \<inter> set (tokenize (chunk_text demo_chunk)))"
    using demo_support(1) unfolding eq .
  then have "\<forall>n \<in> set (findall is_digit ?Q). sublist n (chunk_text demo_chunk)"
    by (rule conjunct1)
  then have d: "list_all (\<lambda>n. sublist n (chunk_text demo_chunk)) (findall is_digit ?Q)"
    by (simp only: list_all_iff)
  from t have "\<forall>qs. build_questions demo_chat [demo_chunk] = Inr qs \<longrightarrow>
         (\<forall>r \<in> set qs. \<exists>ch \<in> set [demo_chunk]. q_chunk_id r = chunk_id ch
             \<and> (\<forall>n \<in> set (findall is_digit (question_text r)). sublist n (chunk_text ch))
             \<and> 2 \<le> card (set (tokenize (question_text r)) \<inter> set (tokenize (chunk_text ch))))"
    by (rule conjunct1 [OF conjunct2 [OF conjunct2]])
  with demo_build_questions
  have "\<forall>r \<in> set new_questions. \<exists>ch \<in> set [demo_chunk]. q_chunk_id r = chunk_id ch
             \<and> (\<forall>n \<in> set (findall is_digit (question_text r)). sublist n (chunk_text ch))
             \<and> 2 \<le> card (set (tokenize (question_text r)) \<inter> set (tokenize (chunk_text ch)))"
    by blast
  then have k: "list_all (\<lambda>r. q_chunk_id r = chunk_id demo_chunk
         \<and> list_all (\<lambda>n. sublist n (chunk_text demo_chunk)) (findall is_digit (question_text r)))
       new_questions"
    by (simp add: list_all_iff)
  show ?thesis
    by (intro conjI) (rule demo_build_questions, rule demo_support(1), rule d,
        rule demo_support(2), rule k)
qed

lemma embed_all_first_failure:
  "\<exists>q \<in> set qs. \<exists>e. E EMBED_MODEL (question_text q) = Inl e \<Longrightarrow>
   \<exists>pre q post e. qs = pre @ q # post
     \<and> list_all (\<lambda>p. \<exists>v. E EMBED_MODEL (question_text p) = Inr v) pre
     \<and> E EMBED_MODEL (question_text q) = Inl e
     \<and> embed_all E qs = Inl e"
proof (induction qs)
  case Nil
  then show ?case by simp
next
  case (Cons q qs)
  show ?case
  proof (cases "E EMBED_MODEL (question_text q)")
    case (Inl e)
    then have "q # qs = [] @ q # qs
        \<and> list_all (\<lambda>p. \<exists>v. E EMBED_MODEL (question_text p) = Inr v) []
        \<and> E EMBED_MODEL (question_text q) = Inl e
        \<and> embed_all E (q # qs) = Inl e"
      by simp
    then show ?thesis by blast
  next
    case (Inr vec)
    with Cons.prems have "\<exists>q \<in> set qs. \<exists>e. E EMBED_MODEL (question_text q) = Inl e" by auto
    from Cons.IH [OF this] obtain pre q' post e where
      IH: "qs = pre @ q' # post"
        "list_all (\<lambda>p. \<exists>v. E EMBED_MODEL (question_text p) = Inr v) pre"
        "E EMBED_MODEL (question_text q') = Inl e"
        "embed_all E qs = Inl e"
      by blast
    from IH Inr have "q # qs = (q # pre) @ q' # post
        \<and> list_all (\<lambda>p. \<exists>v. E EMBED_MODEL (question_text p) = Inr v) (q # pre)
        \<and> E EMBED_MODEL (question_text q') = Inl e
        \<and> embed_all E (q # qs) = Inl e"
      by simp
    then show ?thesis by blast
  qed
qed

text \<open>
  C6 (as amended). When the questions have been built and an embedding call fails, the
  run ends with the error of the first failing call (every question before it has been
  embedded); \<open>build_embeddings\<close> returns no matrix, and \<open>embeddings.npy\<close> and \<open>meta.json\<close>
  are left as they were before the run. \<open>questions.jsonl\<close> has already been overwritten
  with the new questions, so the index the run leaves is consistent exactly when there
  was a matrix before the run and it has one row per new question.
\<close>

theorem index_main_embedding_failure:
  assumes "build_questions C (chunks_file d) = Inr qs"
    and "\<exists>q \<in> set qs. \<exists>e. E EMBED_MODEL (question_text q) = Inl e"
  shows "\<exists>pre q post e. qs = pre @ q # post
     \<and> list_all (\<lambda>p. \<exists>v. E EMBED_MODEL (question_text p) = Inr v) pre
     \<and> E EMBED_MODEL (question_text q) = Inl e
     \<and> build_embeddings E qs = Inl e
     \<and> index_main C E d = (Some e, d\<lparr>questions_file := Some qs\<rparr>)
     \<and> embeddings_file (snd (index_main C E d)) = embeddings_file d
     \<and> meta_file (snd (index_main C E d)) = meta_file d
     \<and> questions_file (snd (index_main C E d)) = Some qs
     \<and> index_consistent (snd (index_main C E d))
         = (case embeddings_file d of Some m \<Rightarrow> n_rows m = length qs | None \<Rightarrow> False)"
proof -
  from embed_all_first_failure [of qs E, OF assms(2)] obtain pre q post e where
    f: "qs = pre @ q # post"
      "list_all (\<lambda>p. \<exists>v. E EMBED_MODEL (question_text p) = Inr v) pre"
      "E EMBED_MODEL (question_text q) = Inl e"
    and e: "embed_all E qs = Inl e"
    by blast
  from e have b: "build_embeddings E qs = Inl e" by (simp add: build_embeddings_def)
  from assms(1) b have m: "index_main C E d = (Some e, d\<lparr>questions_file := Some qs\<rparr>)"
    by (simp add: index_main_def save_questions_def)
  have c: "index_consistent (d\<lparr>questions_file := Some qs\<rparr>)
      = (case embeddings_file d of Some m \<Rightarrow> n_rows m = length qs | None \<Rightarrow> False)"
    by (simp add: index_consistent_def split: option.splits)
  from f b m c have "qs = pre @ q # post
     \<and> list_all (\<lambda>p. \<exists>v. E EMBED_MODEL (question_text p) = Inr v) pre
     \<and> E EMBED_MODEL (question_text q) = Inl e
     \<and> build_embeddings E qs = Inl e
     \<and> index_main C E d = (Some e, d\<lparr>questions_file := Some qs\<rparr>)
     \<and> embeddings_file (snd (index_main C E d)) = embeddings_file d
     \<and> meta_file (snd (index_main C E d)) = meta_file d
     \<and> questions_file (snd (index_main C E d)) = Some qs
     \<and> index_consistent (snd (index_main C E d))
         = (case embeddings_file d of Some m \<Rightarrow> n_rows m = length qs | None \<Rightarrow> False)"
    by simp
  then show ?thesis by blast
qed

theorem index_main_embedding_failure_witness:
  "build_questions demo_chat (chunks_file old_index) = Inr new_questions
   \<and> failing_embed EMBED_MODEL ''How many unexcused absences may students have, up to 2?''
       = Inr [1, 0]
   \<and> failing_embed EMBED_MODEL ''Who may have unexcused absences?'' = Inl (BackendError ''timeout'')
   \<and> index_main demo_chat failing_embed old_index
       = (Some (BackendError ''timeout''), old_index\<lparr>questions_file := Some new_questions\<rparr>)
   \<and> \<not> index_consistent (snd (index_main demo_chat failing_embed old_index))"
proof -
  have "chunks_file old_index = [demo_chunk]" by (simp add: old_index_def)
  then have b: "build_questions demo_chat (chunks_file old_index) = Inr new_questions"
    by (simp only: demo_build_questions)
  have s: "failing_embed EMBED_MODEL ''How many unexcused absences may students have, up to 2?''
       = Inr [1, 0]"
    by (simp add: failing_embed_def)
  have f: "failing_embed EMBED_MODEL ''Who may have unexcused absences?'' = Inl (BackendError ''timeout'')"
    by (simp add: failing_embed_def)
  have h: "\<exists>q \<in> set new_questions. \<exists>e. failing_embed EMBED_MODEL (question_text q) = Inl e"
    by (simp add: new_questions_def failing_embed_def)
  from index_main_embedding_failure [of demo_chat old_index new_questions failing_embed, OF b h]
  show ?thesis
  proof (elim exE conjE)
    fix pre q post e
    assume e: "failing_embed EMBED_MODEL (question_text q) = Inl e"
      and m: "index_main demo_chat failing_embed old_index
         = (Some e, old_index\<lparr>questions_file := Some new_questions\<rparr>)"
      and c: "index_consistent (snd (index_main demo_chat failing_embed old_index))
         = (case embeddings_file old_index of Some m \<Rightarrow> n_rows m = length new_questions
            | None \<Rightarrow> False)"
    from e have t: "e = BackendError ''timeout''"
      by (simp add: failing_embed_def split: if_splits)
    from c have n: "\<not> index_consistent (snd (index_main demo_chat failing_embed old_index))"
      by (simp add: old_index_def new_questions_def)
    from m t b s f n show ?thesis by simp
  qed
qed

text \<open>
  The claim as stated fails: the run below starts from a consistent index of one question
  and one row; the embedding backend times out, and the run leaves the two new questions
  beside the old matrix of one row.
\<close>

theorem index_main_not_all_or_nothing:
  "index_consistent old_index
   \<and> fst (index_main demo_chat failing_embed old_index) = Some (BackendError ''timeout'')
   \<and> questions_file (snd (index_main demo_chat failing_embed old_index)) = Some new_questions
   \<and> embeddings_file (snd (index_main demo_chat failing_embed old_index))
       = Some (Array2 2 [[1, 0]])
   \<and> \<not> index_consistent (snd (index_main demo_chat failing_embed old_index))"
proof -
  have "chunks_file old_index = [demo_chunk]" by (simp add: old_index_def)
  then have b: "build_questions demo_chat (chunks_file old_index) = Inr new_questions"
    by (simp only: demo_build_questions)
  have "embed_all failing_embed new_questions = Inl (BackendError ''timeout'')"
    by (simp add: new_questions_def failing_embed_def)
  then have "build_embeddings failing_embed new_questions = Inl (BackendError ''timeout'')"
    by (simp add: build_embeddings_def)
  with b have m: "index_main demo_chat failing_embed old_index
       = (Some (BackendError ''timeout''), old_index\<lparr>questions_file := Some new_questions\<rparr>)"
    by (simp add: index_main_def save_questions_def)
  have c: "index_consistent old_index"
    by (simp add: index_consistent_def old_index_def)
  have n: "\<not> index_consistent (old_index\<lparr>questions_file := Some new_questions\<rparr>)"
    by (simp add: index_consistent_def old_index_def new_questions_def)
  from m c n show ?thesis by (simp add: old_index_def)
qed

subsection \<open>The evaluator\<close>

lemma score_row_fields:
  assumes "score_row E A C M Q CH row = Inr (r, n, h)"
  shows "r_qid r = qid row" "r_question r = gold_question row" "r_type r = qtype row"
    "r_gold_chunk r = stripped_gold row" "r_notes r = gold_notes row"
    "n = (if eligible r then 1 else 0)" "h = (if is_hit r then 1 else 0)"
    "r_hit1 r = (if eligible r then Some (if r_pred_chunk r = r_gold_chunk r then 1 else 0) else None)"
    "\<exists>max_sim context_chunks.
       retrieve_chunks_for_query E A (gold_question row) M Q CH = Inr (max_sim, context_chunks)
       \<and> r_pred_chunk r = (case context_chunks of [] \<Rightarrow> [] | ch # _ \<Rightarrow> chunk_id ch)
       \<and> snd (safe_generate_answer C (gold_question row) max_sim context_chunks)
           = Inr (r_answer_text r)"
  using assms
  by (auto simp: score_row_def Let_def eligible_def is_hit_def split: sum.splits prod.splits)

lemma score_loop_counts:
  assumes "\<forall>row \<in> set gold. \<exists>x. score_row E A C M Q CH row = Inr x"
  shows "\<exists>rs. score_loop E A C M Q CH gold n h acc
           = Inr (n + length (filter eligible rs), h + length (filter is_hit rs), acc @ rs)
         \<and> list_all2 (\<lambda>row r. \<exists>n h. score_row E A C M Q CH row = Inr (r, n, h)) gold rs"
  using assms
proof (induction gold arbitrary: n h acc)
  case Nil
  then show ?case by simp
next
  case (Cons row gold)
  from Cons.prems obtain r n' h' where row: "score_row E A C M Q CH row = Inr (r, n', h')"
    by (metis list.set_intros(1) prod_cases3)
  from Cons.prems have "\<forall>row \<in> set gold. \<exists>x. score_row E A C M Q CH row = Inr x" by simp
  from Cons.IH [OF this, of "n + n'" "h + h'" "acc @ [r]"]
  obtain rs where loop: "score_loop E A C M Q CH gold (n + n') (h + h') (acc @ [r])
        = Inr (n + n' + length (filter eligible rs), h + h' + length (filter is_hit rs),
               (acc @ [r]) @ rs)"
    and rel: "list_all2 (\<lambda>row r. \<exists>n h. score_row E A C M Q CH row = Inr (r, n, h)) gold rs"
    by blast
  have n': "n' = (if eligible r then 1 else 0)" and h': "h' = (if is_hit r then 1 else 0)"
    using score_row_fields(6,7) [OF row] by simp_all
  have "score_loop E A C M Q CH (row # gold) n h acc
      = Inr (n + length (filter eligible (r # rs)), h + length (filter is_hit (r # rs)),
             acc @ r # rs)"
    using row loop n' h' by simp
  moreover have "list_all2 (\<lambda>row r. \<exists>n h. score_row E A C M Q CH row = Inr (r, n, h))
      (row # gold) (r # rs)"
    using row rel by auto
  ultimately show ?case by blast
qed

lemma stripped_gold_eq: "stripped_gold row = (case gold_chunk row of None \<Rightarrow> [] | Some g \<Rightarrow> strip g)"
  by (simp add: stripped_gold_def split: option.splits)

lemma score_row_succeeds:
  assumes "retrieve_chunks_for_query E A (gold_question row) M Q CH = Inr (max_sim, context_chunks)"
    and "snd (safe_generate_answer C (gold_question row) max_sim context_chunks) = Inr answer"
  shows "\<exists>x. score_row E A C M Q CH row = Inr x"
  using assms by (simp add: score_row_def Let_def)

lemma scored_row_spec:
  assumes "score_row E A C M Q CH row = Inr (r, n, h)"
  shows "r_qid r = qid row \<and> r_question r = gold_question row \<and> r_type r = qtype row
       \<and> r_gold_chunk r = (case gold_chunk row of None \<Rightarrow> [] | Some g \<Rightarrow> strip g)
       \<and> r_notes r = gold_notes row
       \<and> (\<exists>max_sim context_chunks.
             retrieve_chunks_for_query E A (gold_question row) M Q CH = Inr (max_sim, context_chunks)
             \<and> r_pred_chunk r = (case context_chunks of [] \<Rightarrow> [] | ch # _ \<Rightarrow> chunk_id ch)
             \<and> snd (safe_generate_answer C (gold_question row) max_sim context_chunks)
                 = Inr (r_answer_text r))
       \<and> r_hit1 r = (if eligible r then Some (if r_pred_chunk r = r_gold_chunk r then 1 else 0)
                      else None)"
  using score_row_fields [OF assms] by (simp add: stripped_gold_eq)

text \<open>
  C8. When no retrieval or generation call fails, the evaluator writes one result row per
  gold case, in order: the row repeats the case's id, question, type and notes, its gold
  chunk is the stripped \<open>gold_chunk\<close> field, its predicted chunk is the id of the first
  context chunk the retriever returns for the question (empty if there is none), and its
  answer text is what \<open>safe_generate_answer\<close> returns. A row is eligible when its type is
  \<open>normal\<close> and its gold chunk is not empty, and a hit when moreover the predicted chunk
  id equals the gold chunk id. The summary is the number of hits divided by the number of
  eligible rows; with no eligible row it is the message that there is no answerable normal
  question, and nothing is divided. Rows that are not eligible are written but not counted.
\<close>

theorem score_main_hit_at_1:
  assumes "\<forall>row \<in> set gold. \<exists>max_sim context_chunks answer.
      retrieve_chunks_for_query E A (gold_question row) M Q CH = Inr (max_sim, context_chunks)
      \<and> snd (safe_generate_answer C (gold_question row) max_sim context_chunks) = Inr answer"
  shows "\<exists>out_rows.
     score_main E A C M Q CH gold
       = Inr (out_rows,
              if filter eligible out_rows = [] then No_answerable_normal_questions
              else Hit_at_1 (length (filter eligible out_rows))
                     (real (length (filter is_hit out_rows))
                        / real (length (filter eligible out_rows))))
     \<and> list_all2
         (\<lambda>row r.
            r_qid r = qid row \<and> r_question r = gold_question row \<and> r_type r = qtype row
            \<and> r_gold_chunk r = (case gold_chunk row of None \<Rightarrow> [] | Some g \<Rightarrow> strip g)
            \<and> r_notes r = gold_notes row
            \<and> (\<exists>max_sim context_chunks.
                  retrieve_chunks_for_query E A (gold_question row) M Q CH
                    = Inr (max_sim, context_chunks)
                  \<and> r_pred_chunk r = (case context_chunks of [] \<Rightarrow> [] | ch # _ \<Rightarrow> chunk_id ch)
                  \<and> snd (safe_generate_answer C (gold_question row) max_sim context_chunks)
                      = Inr (r_answer_text r))
            \<and> r_hit1 r = (if eligible r
                           then Some (if r_pred_chunk r = r_gold_chunk r then 1 else 0)
                           else None))
         gold out_rows"
proof -
  have ok: "\<forall>row \<in> set gold. \<exists>x. score_row E A C M Q CH row = Inr x"
  proof
    fix row
    assume "row \<in> set gold"
    with assms obtain max_sim context_chunks answer where
      "retrieve_chunks_for_query E A (gold_question row) M Q CH = Inr (max_sim, context_chunks)"
      "snd (safe_generate_answer C (gold_question row) max_sim context_chunks) = Inr answer"
      by blast
    then show "\<exists>x. score_row E A C M Q CH row = Inr x" by (rule score_row_succeeds)
  qed
  from score_loop_counts [OF ok, of 0 0 "[]"]
  obtain rs where loop: "score_loop E A C M Q CH gold 0 0 []
        = Inr (length (filter eligible rs), length (filter is_hit rs), rs)"
    and rel: "list_all2 (\<lambda>row r. \<exists>n h. score_row E A C M Q CH row = Inr (r, n, h)) gold rs"
    by auto
  from loop have main: "score_main E A C M Q CH gold
       = Inr (rs,
              if filter eligible rs = [] then No_answerable_normal_questions
              else Hit_at_1 (length (filter eligible rs))
                     (real (length (filter is_hit rs)) / real (length (filter eligible rs))))"
    by (simp add: score_main_def)
  from rel have spec: "list_all2
         (\<lambda>row r.
            r_qid r = qid row \<and> r_question r = gold_question row \<and> r_type r = qtype row
            \<and> r_gold_chunk r = (case gold_chunk row of None \<Rightarrow> [] | Some g \<Rightarrow> strip g)
            \<and> r_notes r = gold_notes row
            \<and> (\<exists>max_sim context_chunks.
                  retrieve_chunks_for_query E A (gold_question row) M Q CH
                    = Inr (max_sim, context_chunks)
                  \<and> r_pred_chunk r = (case context_chunks of [] \<Rightarrow> [] | ch # _ \<Rightarrow> chunk_id ch)
                  \<and> snd (safe_generate_answer C (gold_question row) max_sim context_chunks)
                      = Inr (r_answer_text r))
            \<and> r_hit1 r = (if eligible r
                           then Some (if r_pred_chunk r = r_gold_chunk r then 1 else 0)
                           else None))
         gold rs"
  proof (rule list_all2_mono)
    fix row r
    assume "\<exists>n h. score_row E A C M Q CH row = Inr (r, n, h)"
    then obtain n h where "score_row E A C M Q CH row = Inr (r, n, h)" by blast
    then show "r_qid r = qid row \<and> r_question r = gold_question row \<and> r_type r = qtype row
            \<and> r_gold_chunk r = (case gold_chunk row of None \<Rightarrow> [] | Some g \<Rightarrow> strip g)
            \<and> r_notes r = gold_notes row
            \<and> (\<exists>max_sim context_chunks.
                  retrieve_chunks_for_query E A (gold_question row) M Q CH
                    = Inr (max_sim, context_chunks)
                  \<and> r_pred_chunk r = (case context_chunks of [] \<Rightarrow> [] | ch # _ \<Rightarrow> chunk_id ch)
                  \<and> snd (safe_generate_answer C (gold_question row) max_sim context_chunks)
                      = Inr (r_answer_text r))
            \<and> r_hit1 r = (if eligible r
                           then Some (if r_pred_chunk r = r_gold_chunk r then 1 else 0)
                           else None)"
      by (rule scored_row_spec)
  qed
  from main spec show ?thesis by blast
qed

lemma demo_retrieve:
  "retrieve_chunks_for_query (\<lambda>model text. Inr [0, 1]) argsort_stable q (Array2 2 [[1, 0]])
     [demo_question] [''chunk_0'' \<mapsto> demo_chunk] = Inr (0, [demo_chunk])"
  by (simp add: retrieve_chunks_for_query_def cosine_sim_matrix_def dot_def
      top_k_indices_def argsort_stable_def TOP_K_QUESTIONS_def MAX_CHUNKS_def
      demo_question_def)

lemma demo_strip: "strip '' chunk_0 '' = ''chunk_0''" "strip ''chunk_7'' = ''chunk_7''"
  by (simp_all add: strip_def lstrip_def rstrip_def isspace_def)

lemma demo_chunk_id: "chunk_id demo_chunk = ''chunk_0''"
  by (simp add: demo_chunk_def)

lemma demo_rows:
  "score_row (\<lambda>model text. Inr [0, 1]) argsort_stable (\<lambda>model prompt. Inr ''generated'')
     (Array2 2 [[1, 0]]) [demo_question] [''chunk_0'' \<mapsto> demo_chunk] gold_hit
     = Inr (result_hit, 1, 1)"
  "score_row (\<lambda>model text. Inr [0, 1]) argsort_stable (\<lambda>model prompt. Inr ''generated'')
     (Array2 2 [[1, 0]]) [demo_question] [''chunk_0'' \<mapsto> demo_chunk] gold_miss
     = Inr (result_miss, 1, 0)"
  "score_row (\<lambda>model text. Inr [0, 1]) argsort_stable (\<lambda>model prompt. Inr ''generated'')
     (Array2 2 [[1, 0]]) [demo_question] [''chunk_0'' \<mapsto> demo_chunk] gold_other
     = Inr (result_other, 0, 0)"
  by (simp_all add: score_row_def Let_def demo_retrieve demo_chunk_id
      gold_hit_def gold_miss_def gold_other_def result_hit_def result_miss_def
      result_other_def stripped_gold_def demo_strip safe_generate_answer_def
      MIN_SIMILARITY_def)

theorem score_main_hit_at_1_witness:
  "score_main (\<lambda>model text. Inr [0, 1]) argsort_stable (\<lambda>model prompt. Inr ''generated'')
     (Array2 2 [[1, 0]]) [demo_question] [''chunk_0'' \<mapsto> demo_chunk]
     [gold_hit, gold_miss, gold_other]
     = Inr ([result_hit, result_miss, result_other], Hit_at_1 2 (1 / 2))
   \<and> length (filter eligible [result_hit, result_miss, result_other]) = 2
   \<and> length (filter is_hit [result_hit, result_miss, result_other]) = 1
   \<and> map r_qid [result_hit, result_miss, result_other]
       = map qid [gold_hit, gold_miss, gold_other]"
proof -
  let ?E = "\<lambda>model text. Inr [0, 1] :: error + real list"
  let ?C = "\<lambda>model prompt. Inr ''generated'' :: error + string"
  let ?M = "Array2 2 [[1, 0]]"
  let ?CH = "[''chunk_0'' \<mapsto> demo_chunk]"
  have gate: "snd (safe_generate_answer ?C q 0 [demo_chunk]) = Inr INSUFFICIENT" for q
    by (simp add: safe_generate_answer_def MIN_SIMILARITY_def)
  have ok: "\<forall>row \<in> set [gold_hit, gold_miss, gold_other].
      \<exists>max_sim context_chunks answer.
        retrieve_chunks_for_query ?E argsort_stable (gold_question row) ?M [demo_question] ?CH
          = Inr (max_sim, context_chunks)
        \<and> snd (safe_generate_answer ?C (gold_question row) max_sim context_chunks) = Inr answer"
    using gate by (simp add: demo_retrieve)
  have main: "score_main ?E argsort_stable ?C ?M [demo_question] ?CH
       [gold_hit, gold_miss, gold_other]
      = Inr ([result_hit, result_miss, result_other], Hit_at_1 2 (1 / 2))"
    by (simp add: score_main_def demo_rows)
  from score_main_hit_at_1 [OF ok] obtain rs where
    "score_main ?E argsort_stable ?C ?M [demo_question] ?CH [gold_hit, gold_miss, gold_other]
       = Inr (rs,
              if filter eligible rs = [] then No_answerable_normal_questions
              else Hit_at_1 (length (filter eligible rs))
                     (real (length (filter is_hit rs)) / real (length (filter eligible rs))))"
    and rel: "list_all2 (\<lambda>row r. r_qid r = qid row \<and> r_question r = gold_question row
            \<and> r_type r = qtype row
            \<and> r_gold_chunk r = (case gold_chunk row of None \<Rightarrow> [] | Some g \<Rightarrow> strip g)
            \<and> r_notes r = gold_notes row
            \<and> (\<exists>max_sim context_chunks.
                  retrieve_chunks_for_query ?E argsort_stable (gold_question row) ?M
                    [demo_question] ?CH = Inr (max_sim, context_chunks)
                  \<and> r_pred_chunk r = (case context_chunks of [] \<Rightarrow> [] | ch # _ \<Rightarrow> chunk_id ch)
                  \<and> snd (safe_generate_answer ?C (gold_question row) max_sim context_chunks)
                      = Inr (r_answer_text r))
            \<and> r_hit1 r = (if eligible r
                           then Some (if r_pred_chunk r = r_gold_chunk r then 1 else 0)
                           else None))
         [gold_hit, gold_miss, gold_other] rs"
    by blast
  with main have rs: "rs = [result_hit, result_miss, result_other]" by simp
  from rel have ids: "map r_qid [result_hit, result_miss, result_other]
      = map qid [gold_hit, gold_miss, gold_other]"
    unfolding rs by simp
  have counts: "length (filter eligible [result_hit, result_miss, result_other]) = 2"
    "length (filter is_hit [result_hit, result_miss, result_other]) = 1"
    by (simp_all add: result_hit_def result_miss_def result_other_def eligible_def is_hit_def)
  from main counts ids show ?thesis by simp
qed

end
